theory Spec2Isabelle
  imports Complex_Main "HOL-Library.Multiset"
begin

section \<open>The solver interface\<close>

text \<open>
  The notebook \<^verbatim>\<open>Solvers.ipynb\<close> poses four problems to the Z3 solver through its
  Python interface. The notebook's own code declares variables, builds constraint
  expressions, and reads values back from the model. The expressions are trees; they are
  embedded as the datatypes \<open>expr\<close> and \<open>formula\<close>, one constructor per operator the
  notebook applies. The type parameter is the carrier of the numeric sort of a problem
  (\<open>real\<close> for the kinematics cell, \<open>int\<close> for the others).
\<close>

datatype z3sort = RealSort | IntSort | BoolSort

datatype 'a expr =
    Var z3sort string
  | Num 'a
  | Plus "'a expr" "'a expr"
  | Times "'a expr" "'a expr"
  | Divide "'a expr" "'a expr"
  | Ite "'a formula" "'a expr" "'a expr"
and 'a formula =
    BVar string
  | Eq "'a expr" "'a expr"
  | Neq "'a expr" "'a expr"
  | Le "'a expr" "'a expr"
  | Ge "'a expr" "'a expr"
  | Lt "'a expr" "'a expr"
  | And "'a formula" "'a formula"
  | Distinct "'a expr list"

text \<open>
  A model maps variable names to values. A name the model does not hold reads as \<open>None\<close>,
  as \<^verbatim>\<open>model[x]\<close> does in Python.
\<close>

record 'a model =
  num_val :: "string \<rightharpoonup> 'a"
  bool_val :: "string \<rightharpoonup> bool"

datatype error = IndexError | AttributeError | Z3Exception

fun lift2 :: "('a \<Rightarrow> 'b \<Rightarrow> 'c) \<Rightarrow> 'a option \<Rightarrow> 'b option \<Rightarrow> 'c option" where
  "lift2 f (Some x) (Some y) = Some (f x y)"
| "lift2 f _ _ = None"

fun those_vals :: "'a option list \<Rightarrow> 'a list option" where
  "those_vals [] = Some []"
| "those_vals (None # xs) = None"
| "those_vals (Some x # xs) =
     (case those_vals xs of None \<Rightarrow> None | Some ys \<Rightarrow> Some (x # ys))"

text \<open>
  Modelled from the spec: the meaning the external solver gives to an expression under a
  model (sections 3 and 6: a constraint is a boolean-valued expression over variables, a
  model a mapping from the submitted variables to concrete values). The value of an
  expression is defined when the model holds every variable in it; division is the exact
  division of the reals, the only sort the notebook divides in, and has no value at
  divisor zero.
\<close>

fun eval :: "('a::{linordered_idom,idom_divide}) model \<Rightarrow> 'a expr \<Rightarrow> 'a option"
and truth :: "'a model \<Rightarrow> 'a formula \<Rightarrow> bool option" where
  "eval m (Var srt x) = num_val m x"
| "eval m (Num n) = Some n"
| "eval m (Plus a b) = lift2 (+) (eval m a) (eval m b)"
| "eval m (Times a b) = lift2 (*) (eval m a) (eval m b)"
| "eval m (Divide a b) =
     (case eval m b of None \<Rightarrow> None
      | Some d \<Rightarrow> if d = 0 then None else lift2 divide (eval m a) (Some d))"
| "eval m (Ite c a b) =
     (case truth m c of None \<Rightarrow> None
      | Some t \<Rightarrow> if t then eval m a else eval m b)"
| "truth m (BVar x) = bool_val m x"
| "truth m (Eq a b) = lift2 (=) (eval m a) (eval m b)"
| "truth m (Neq a b) = lift2 (\<noteq>) (eval m a) (eval m b)"
| "truth m (Le a b) = lift2 (\<le>) (eval m a) (eval m b)"
| "truth m (Ge a b) = lift2 (\<ge>) (eval m a) (eval m b)"
| "truth m (Lt a b) = lift2 (<) (eval m a) (eval m b)"
| "truth m (And p q) = lift2 (\<and>) (truth m p) (truth m q)"
| "truth m (Distinct es) = map_option distinct (those_vals (map (eval m) es))"

text \<open>
  Modelled from the spec: a successful \<^verbatim>\<open>check()\<close> followed by \<^verbatim>\<open>model()\<close> hands back
  a model of every constraint added to the solver (glossary: a concrete assignment of
  values to variables satisfying all submitted constraints).
\<close>

definition is_model :: "('a::{linordered_idom,idom_divide}) model \<Rightarrow> 'a formula list \<Rightarrow> bool" where
  "is_model m cs = list_all (\<lambda>c. truth m c = Some True) cs"

text \<open>
  Modelled from the spec: the variable declarations of the solver's Python interface.
  \<^verbatim>\<open>Reals\<close> and \<^verbatim>\<open>Ints\<close> split their argument at single spaces and declare one
  constant per name.
\<close>

fun split_space :: "string \<Rightarrow> string list" where
  "split_space [] = [[]]"
| "split_space (c # cs) =
     (if c = CHR '' '' then [] # split_space cs
      else (case split_space cs of [] \<Rightarrow> [[c]] | w # ws \<Rightarrow> (c # w) # ws))"

definition Real_z3 :: "string \<Rightarrow> 'a expr" where
  "Real_z3 name = Var RealSort name"

definition Int_z3 :: "string \<Rightarrow> 'a expr" where
  "Int_z3 name = Var IntSort name"

definition Bool_z3 :: "string \<Rightarrow> 'a formula" where
  "Bool_z3 name = BVar name"

definition Reals_z3 :: "string \<Rightarrow> 'a expr list" where
  "Reals_z3 names = map Real_z3 (split_space names)"

definition Ints_z3 :: "string \<Rightarrow> 'a expr list" where
  "Ints_z3 names = map Int_z3 (split_space names)"

text \<open>The name and sort a declared variable carries.\<close>

fun decl_of :: "'a expr \<Rightarrow> (string \<times> z3sort) option" where
  "decl_of (Var srt name) = Some (name, srt)"
| "decl_of _ = None"

fun bool_decl_of :: "'a formula \<Rightarrow> (string \<times> z3sort) option" where
  "bool_decl_of (BVar name) = Some (name, BoolSort)"
| "bool_decl_of _ = None"

definition decls_of :: "'a expr list \<Rightarrow> (string \<times> z3sort) list" where
  "decls_of es = List.map_filter decl_of es"

definition bool_decls_of :: "'a formula list \<Rightarrow> (string \<times> z3sort) list" where
  "bool_decls_of ps = List.map_filter bool_decl_of ps"

text \<open>
  The naming invariant of a constraint set (section 3 of the specification): no two
  declared variables share a name with different sorts.
\<close>

definition naming_consistent :: "(string \<times> z3sort) list \<Rightarrow> bool" where
  "naming_consistent ds \<longleftrightarrow> (\<forall>(n, s)\<in>set ds. \<forall>(n', s')\<in>set ds. n = n' \<longrightarrow> s = s')"

text \<open>
  \<^verbatim>\<open>model[x]\<close>: the value of a declared constant, \<open>None\<close> when the model does not hold
  it; any other expression is refused.
\<close>

fun model_get :: "'a model \<Rightarrow> 'a expr \<Rightarrow> error + 'a option" where
  "model_get m (Var srt x) = Inr (num_val m x)"
| "model_get m _ = Inl Z3Exception"

text \<open>A solver is the list of the constraints added so far, in order.\<close>

definition Solver :: "'a formula list" where
  "Solver = []"

definition add :: "'a formula list \<Rightarrow> 'a formula list \<Rightarrow> 'a formula list" where
  "add s cs = s @ cs"

subsection \<open>Python's \<open>str\<close>, \<open>int\<close>, \<open>range\<close> and slices\<close>

definition digit_char :: "nat \<Rightarrow> char" where
  "digit_char d = char_of (48 + d)"

fun str_nat :: "nat \<Rightarrow> string" where
  "str_nat n = (if n < 10 then [digit_char n] else str_nat (n div 10) @ [digit_char (n mod 10)])"

declare str_nat.simps [simp del]

definition str :: "int \<Rightarrow> string" where
  "str i = (if i < 0 then CHR ''-'' # str_nat (nat (- i)) else str_nat (nat i))"

text \<open>\<^verbatim>\<open>int(c)\<close> on a digit character.\<close>

definition int_of_digit :: "char \<Rightarrow> int" where
  "int_of_digit c = int (of_char c) - 48"

text \<open>\<^verbatim>\<open>range(start, stop, step)\<close> for a positive step.\<close>

definition range_step :: "nat \<Rightarrow> nat \<Rightarrow> nat \<Rightarrow> nat list" where
  "range_step start stop step = map (\<lambda>i. start + i * step) [0..<(stop - start + step - 1) div step]"

text \<open>\<^verbatim>\<open>xs[a:b]\<close> and \<^verbatim>\<open>xs[c::k]\<close> for indices that are not negative.\<close>

definition slice :: "nat \<Rightarrow> nat \<Rightarrow> 'a list \<Rightarrow> 'a list" where
  "slice a b xs = drop a (take b xs)"

definition slice_from_step :: "nat \<Rightarrow> nat \<Rightarrow> 'a list \<Rightarrow> 'a list" where
  "slice_from_step c k xs = map (\<lambda>i. xs ! i) (range_step c (length xs) k)"

text \<open>A list of results is a result: the first error wins, as the first exception would.\<close>

fun collect :: "(error + 'a) list \<Rightarrow> error + 'a list" where
  "collect [] = Inr []"
| "collect (Inl e # xs) = Inl e"
| "collect (Inr x # xs) = (case collect xs of Inl e \<Rightarrow> Inl e | Inr ys \<Rightarrow> Inr (x # ys))"

section \<open>Uniform acceleration\<close>

text \<open>
  \<^verbatim>\<open>
  u, v, s, a, t = Reals('u v s a t')
  rules = [ v == u + a * t,  s == u * t + a * t * t / 2 ]
  solve(u == 10, a == 1, v == 20, *rules)
  \<close>
\<close>

definition kinematics_vars :: "real expr list" where
  "kinematics_vars = Reals_z3 ''u v s a t''"

definition u_var :: "real expr" where "u_var = kinematics_vars ! 0"
definition v_var :: "real expr" where "v_var = kinematics_vars ! 1"
definition s_var :: "real expr" where "s_var = kinematics_vars ! 2"
definition a_var :: "real expr" where "a_var = kinematics_vars ! 3"
definition t_var :: "real expr" where "t_var = kinematics_vars ! 4"

definition rules :: "real formula list" where
  "rules =
     [Eq v_var (Plus u_var (Times a_var t_var)),
      Eq s_var (Plus (Times u_var t_var) (Divide (Times (Times a_var t_var) t_var) (Num 2)))]"

definition kinematics_query :: "real formula list" where
  "kinematics_query = [Eq u_var (Num 10), Eq a_var (Num 1), Eq v_var (Num 20)] @ rules"

section \<open>The cryptarithm SEND + MORE = MONEY\<close>

text \<open>
  \<^verbatim>\<open>
  S, E, N, D, M, O, R, Y = Ints('S E N D M O R Y')
  def in_range(lo, hi, *vars):
      return [And(lo <= var, var < hi) for var in vars]
  \<close>
  With \<open>lo\<close> a Python integer and \<open>var\<close> a solver expression, Python evaluates
  \<^verbatim>\<open>lo <= var\<close> by the reflected comparison of \<open>var\<close>, which builds \<open>var >= lo\<close>.
\<close>

definition digit_vars :: "int expr list" where
  "digit_vars = Ints_z3 ''S E N D M O R Y''"

definition S_var :: "int expr" where "S_var = digit_vars ! 0"
definition E_var :: "int expr" where "E_var = digit_vars ! 1"
definition N_var :: "int expr" where "N_var = digit_vars ! 2"
definition D_var :: "int expr" where "D_var = digit_vars ! 3"
definition M_var :: "int expr" where "M_var = digit_vars ! 4"
definition O_var :: "int expr" where "O_var = digit_vars ! 5"
definition R_var :: "int expr" where "R_var = digit_vars ! 6"
definition Y_var :: "int expr" where "Y_var = digit_vars ! 7"

definition in_range :: "'a \<Rightarrow> 'a \<Rightarrow> 'a expr list \<Rightarrow> 'a formula list" where
  "in_range lo hi vars = map (\<lambda>var. And (Ge var (Num lo)) (Lt var (Num hi))) vars"

text \<open>
  \<^verbatim>\<open>
  s = Solver()
  s.add(        1000*S + 100*E + 10*N + D +
                1000*M + 100*O + 10*R + E ==
      10000*M + 1000*O + 100*N + 10*E + Y)
  s.add(Distinct(S, E, N, D, M, O, R, Y))
  s.add(in_range(0, 10, S, E, N, D, M, O, R, Y))
  s.add(in_range(1, 10, S, M))
  \<close>
\<close>

definition send_more_money :: "int formula" where
  "send_more_money =
     Eq (Plus (Plus (Plus (Plus (Plus (Plus (Plus
            (Times (Num 1000) S_var) (Times (Num 100) E_var)) (Times (Num 10) N_var)) D_var)
            (Times (Num 1000) M_var)) (Times (Num 100) O_var)) (Times (Num 10) R_var)) E_var)
        (Plus (Plus (Plus (Plus
            (Times (Num 10000) M_var) (Times (Num 1000) O_var)) (Times (Num 100) N_var))
            (Times (Num 10) E_var)) Y_var)"

definition cryptarithm_s :: "int formula list" where
  "cryptarithm_s =
     add (add (add (add Solver
       [send_more_money])
       [Distinct [S_var, E_var, N_var, D_var, M_var, O_var, R_var, Y_var]])
       (in_range 0 10 [S_var, E_var, N_var, D_var, M_var, O_var, R_var, Y_var]))
       (in_range 1 10 [S_var, M_var])"

text \<open>
  \<^verbatim>\<open>
  def amount(model, *digits):
      v = 0
      for digit in digits:
          v = v * 10 + model[digit].as_long()
      return v
  \<close>
  The loop carries \<open>v\<close>. A digit the model does not hold reads as \<open>None\<close>, and
  \<^verbatim>\<open>None.as_long()\<close> raises.
\<close>

fun amount_loop :: "int model \<Rightarrow> int \<Rightarrow> int expr list \<Rightarrow> error + int" where
  "amount_loop m v [] = Inr v"
| "amount_loop m v (digit # digits) =
     (case model_get m digit of
        Inl e \<Rightarrow> Inl e
      | Inr None \<Rightarrow> Inl AttributeError
      | Inr (Some x) \<Rightarrow> amount_loop m (v * 10 + x) digits)"

definition amount :: "int model \<Rightarrow> int expr list \<Rightarrow> error + int" where
  "amount m digits = amount_loop m 0 digits"

section \<open>Sudoku\<close>

text \<open>\<^verbatim>\<open>sq3x3 = list(product(range(3), repeat=2))\<close>\<close>

definition sq3x3 :: "(nat \<times> nat) list" where
  "sq3x3 = List.product [0..<3] [0..<3]"

definition puzzle :: string where
  "puzzle =
     ''   | 94| 3 \<newline>'' @
     ''   |51 |  7\<newline>'' @
     '' 89|   | 4 \<newline>'' @
     ''---+---+---\<newline>'' @
     ''   |   |2 8\<newline>'' @
     '' 6 |2 1| 5 \<newline>'' @
     ''1 2|   |   \<newline>'' @
     ''---+---+---\<newline>'' @
     '' 7 |   |52 \<newline>'' @
     ''9  | 65|   \<newline>'' @
     '' 4 |97 |   \<newline>''"

text \<open>\<^verbatim>\<open>cells = [Int(str(s)) for s in range(81)]\<close>\<close>

definition cells :: "int expr list" where
  "cells = map (\<lambda>s. Int_z3 (str (int s))) [0..<81]"

text \<open>
  \<^verbatim>\<open>
  def display(model):
      vs = count()
      return ''.join(
          str(model[cells[next(vs)]]) if c in ' 123456789' else c
          for c in puzzle)
  \<close>
  The counter \<open>vs\<close> is the second argument of the loop: it advances where the character
  is a placeholder and stays where it is not. \<^verbatim>\<open>str(None)\<close> is the text \<open>None\<close>.
\<close>

definition str_value :: "int option \<Rightarrow> string" where
  "str_value x = (case x of None \<Rightarrow> ''None'' | Some i \<Rightarrow> str i)"

fun display_loop :: "int model \<Rightarrow> nat \<Rightarrow> string \<Rightarrow> error + string" where
  "display_loop m vs [] = Inr []"
| "display_loop m vs (c # cs) =
     (if c \<in> set '' 123456789'' then
        (case (if vs < length cells then model_get m (cells ! vs) else Inl IndexError) of
           Inl e \<Rightarrow> Inl e
         | Inr x \<Rightarrow>
            (case display_loop m (vs + 1) cs of
               Inl e \<Rightarrow> Inl e
             | Inr rest \<Rightarrow> Inr (str_value x @ rest)))
      else
        (case display_loop m vs cs of
           Inl e \<Rightarrow> Inl e
         | Inr rest \<Rightarrow> Inr (c # rest)))"

definition display :: "int model \<Rightarrow> error + string" where
  "display m = display_loop m 0 puzzle"

text \<open>
  \<^verbatim>\<open>
  def cell(R, C, r, c):
      return cells[9*(3*R+r) + 3*C + c]
  rows = [Distinct(cells[r:r+9]) for r in range(0, 81, 9)]
  cols = [Distinct(cells[c::9]) for c in range(9)]
  blocks = [Distinct([cell(*p, *d) for d in sq3x3]) for p in sq3x3]
  sudoku_rules = rows + cols + blocks
  \<close>
\<close>

definition cell_index :: "nat \<Rightarrow> nat \<Rightarrow> nat \<Rightarrow> nat \<Rightarrow> nat" where
  "cell_index R C r c = 9 * (3 * R + r) + 3 * C + c"

definition cell :: "nat \<Rightarrow> nat \<Rightarrow> nat \<Rightarrow> nat \<Rightarrow> error + int expr" where
  "cell R C r c =
     (if cell_index R C r c < length cells then Inr (cells ! cell_index R C r c)
      else Inl IndexError)"

definition rows :: "int formula list" where
  "rows = map (\<lambda>r. Distinct (slice r (r + 9) cells)) (range_step 0 81 9)"

definition cols :: "int formula list" where
  "cols = map (\<lambda>c. Distinct (slice_from_step c 9 cells)) [0..<9]"

definition blocks :: "error + int formula list" where
  "blocks =
     collect (map (\<lambda>(R, C).
       (case collect (map (\<lambda>(r, c). cell R C r c) sq3x3) of
          Inl e \<Rightarrow> Inl e
        | Inr es \<Rightarrow> Inr (Distinct es))) sq3x3)"

definition sudoku_rules :: "error + int formula list" where
  "sudoku_rules = (case blocks of Inl e \<Rightarrow> Inl e | Inr bs \<Rightarrow> Inr (rows @ cols @ bs))"

text \<open>
  \<^verbatim>\<open>
  s = Solver()
  s.add(sudoku_rules)
  s.add(in_range(1, 10, *cells))
  start_cells = (c for c in puzzle if c in ' 123456789')
  for i, c in enumerate(start_cells):
      if c in '123456789':
          s.add(cells[i]==int(c))
  s.add(cells[0] != 5)
  \<close>
\<close>

definition start_cells :: string where
  "start_cells = filter (\<lambda>c. c \<in> set '' 123456789'') puzzle"

fun clue_loop :: "int formula list \<Rightarrow> nat \<Rightarrow> string \<Rightarrow> error + int formula list" where
  "clue_loop s i [] = Inr s"
| "clue_loop s i (c # cs) =
     (if c \<in> set ''123456789'' then
        (if i < length cells then
           clue_loop (add s [Eq (cells ! i) (Num (int_of_digit c))]) (i + 1) cs
         else Inl IndexError)
      else clue_loop s (i + 1) cs)"

definition sudoku_s :: "error + int formula list" where
  "sudoku_s =
     (case sudoku_rules of
        Inl e \<Rightarrow> Inl e
      | Inr rs \<Rightarrow>
         (case clue_loop (add (add Solver rs) (in_range 1 10 cells)) 0 start_cells of
            Inl e \<Rightarrow> Inl e
          | Inr s \<Rightarrow>
             (if 0 < length cells then Inr (add s [Neq (cells ! 0) (Num 5)])
              else Inl IndexError)))"

text \<open>
  The instance rule set the solver ends up with: what it holds beyond the generic rules
  and the domain constraint.
\<close>

definition instance_rules :: "error + int formula list" where
  "instance_rules =
     (case sudoku_rules of
        Inl e \<Rightarrow> Inl e
      | Inr rs \<Rightarrow>
         (case sudoku_s of
            Inl e \<Rightarrow> Inl e
          | Inr s \<Rightarrow> Inr (drop (length rs + length (in_range 1 10 cells)) s)))"

text \<open>
  The cell a position of the template stands for: the number of placeholders before it.
\<close>

definition counter_at :: "nat \<Rightarrow> nat" where
  "counter_at j = length (filter (\<lambda>c. c \<in> set '' 123456789'') (take j puzzle))"

text \<open>
  The instance rule set in the words of the specification (section 4.3): for every
  pre-filled character of the template, an equality fixing that cell's variable to the
  given digit.
\<close>

definition clue_positions :: "nat list" where
  "clue_positions = filter (\<lambda>j. puzzle ! j \<in> set ''123456789'') [0..<length puzzle]"

definition clue_equalities :: "int formula list" where
  "clue_equalities =
     map (\<lambda>j. Eq (cells ! counter_at j) (Num (int_of_digit (puzzle ! j)))) clue_positions"

text \<open>
  The grid a model completes, read row by row: the cell at row \<open>i\<close> and column \<open>j\<close> has
  index \<open>9 * i + j\<close>. Its rows, columns and 3x3 blocks, and the conditions the constraint
  set puts on it.
\<close>

definition grid_row :: "int list \<Rightarrow> nat \<Rightarrow> int list" where
  "grid_row g i = map (\<lambda>j. g ! (9 * i + j)) [0..<9]"

definition grid_col :: "int list \<Rightarrow> nat \<Rightarrow> int list" where
  "grid_col g j = map (\<lambda>i. g ! (9 * i + j)) [0..<9]"

definition grid_block :: "int list \<Rightarrow> nat \<Rightarrow> nat \<Rightarrow> int list" where
  "grid_block g R C =
     map (\<lambda>(r, c). g ! (9 * (3 * R + r) + (3 * C + c))) (List.product [0..<3] [0..<3])"

definition grid_ok :: "int list \<Rightarrow> bool" where
  "grid_ok g \<longleftrightarrow>
     list_all (\<lambda>i. distinct (grid_row g i)) [0..<9] \<and>
     list_all (\<lambda>j. distinct (grid_col g j)) [0..<9] \<and>
     list_all (\<lambda>(R, C). distinct (grid_block g R C)) (List.product [0..<3] [0..<3]) \<and>
     list_all (\<lambda>x. 1 \<le> x \<and> x < 10) g \<and>
     list_all (\<lambda>j. g ! counter_at j = int_of_digit (puzzle ! j)) clue_positions \<and>
     g ! 0 \<noteq> 5"

text \<open>The grid the notebook prints, and a model that holds a given grid.\<close>

definition solved_grid :: "int list" where
  "solved_grid =
     [7, 1, 5, 8, 9, 4, 6, 3, 2,
      2, 3, 4, 5, 1, 6, 8, 9, 7,
      6, 8, 9, 7, 2, 3, 1, 4, 5,
      4, 9, 3, 6, 5, 7, 2, 1, 8,
      8, 6, 7, 2, 3, 1, 9, 5, 4,
      1, 5, 2, 4, 8, 9, 7, 6, 3,
      3, 7, 6, 1, 4, 8, 5, 2, 9,
      9, 2, 8, 3, 6, 5, 4, 7, 1,
      5, 4, 1, 9, 7, 2, 3, 8, 6]"

definition grid_model :: "int list \<Rightarrow> int model" where
  "grid_model g =
     \<lparr>num_val = map_of (zip (map (\<lambda>i. str (int i)) [0..<length g]) g), bool_val = Map.empty\<rparr>"

text \<open>The flat indices the nine block constraints read, block after block.\<close>

definition block_indices :: "nat list" where
  "block_indices = concat (map (\<lambda>(R, C). map (\<lambda>(r, c). cell_index R C r c) sq3x3) sq3x3)"

section \<open>Knapsack\<close>

text \<open>
  \<^verbatim>\<open>
  values = [360, 83, 59, 130, 431, 67, 230, 52]
  weights = [7, 0, 30, 22, 80, 94, 11, 81]
  capacity = 80
  selections = [Bool(f'item{n}') for n in range(len(values))]
  knapsack = Optimize()
  knapsack.add(sum(s * w for s, w in zip(selections, weights)) <= capacity)
  objective = knapsack.maximize(sum(s * v for s, v in zip(selections, values)))
  \<close>
\<close>

definition "values" :: "int list" where
  "values = [360, 83, 59, 130, 431, 67, 230, 52]"

definition weights :: "int list" where
  "weights = [7, 0, 30, 22, 80, 94, 11, 81]"

definition capacity :: int where
  "capacity = 80"

definition selections :: "int formula list" where
  "selections = map (\<lambda>n. Bool_z3 (''item'' @ str (int n))) [0..<length values]"

text \<open>
  Modelled from the spec: the product of a boolean selection variable and an integer
  (section 4.4: the contribution is zero when the selection variable is false).
\<close>

definition bool_times :: "int formula \<Rightarrow> int \<Rightarrow> int expr" where
  "bool_times s w = Ite s (Num w) (Num 0)"

text \<open>Python's \<^verbatim>\<open>sum\<close> starts from 0 and adds the terms from the left.\<close>

definition sum_py :: "int expr list \<Rightarrow> int expr" where
  "sum_py es = foldl Plus (Num 0) es"

record optimize =
  assertions :: "int formula list"
  objective :: "int expr"

definition knapsack :: optimize where
  "knapsack =
     \<lparr> assertions =
         [Le (sum_py (map (\<lambda>(s, w). bool_times s w) (zip selections weights))) (Num capacity)],
       objective = sum_py (map (\<lambda>(s, v). bool_times s v) (zip selections values)) \<rparr>"

text \<open>
  Modelled from the spec: the optimizing solve (sections 4.4 and 6). It hands back a model
  of the constraints together with the value of the objective in that model, and no model
  of the constraints gives the objective a greater value.
\<close>

definition is_optimum :: "int model \<Rightarrow> int \<Rightarrow> optimize \<Rightarrow> bool" where
  "is_optimum m best opt \<longleftrightarrow>
     is_model m (assertions opt) \<and> eval m (objective opt) = Some best \<and>
     (\<forall>m' v. is_model m' (assertions opt) \<and> eval m' (objective opt) = Some v \<longrightarrow> v \<le> best)"

text \<open>
  The total weight and the total value of a selection, as the specification words them:
  an item contributes its weight (its value) when its selection is true and zero when it
  is false.
\<close>

definition selected_sum :: "bool list \<Rightarrow> int list \<Rightarrow> int" where
  "selected_sum sel xs = sum_list (map (\<lambda>(s, x). if s then x else 0) (zip sel xs))"

definition total_weight :: "bool list \<Rightarrow> int" where
  "total_weight sel = selected_sum sel weights"

definition total_value :: "bool list \<Rightarrow> int" where
  "total_value sel = selected_sum sel values"

text \<open>The assignment the notebook prints for the knapsack cell.\<close>

definition best_model :: "int model" where
  "best_model =
     \<lparr>num_val = Map.empty,
      bool_val = [''item0'' \<mapsto> True, ''item1'' \<mapsto> True, ''item2'' \<mapsto> True, ''item3'' \<mapsto> True,
                  ''item4'' \<mapsto> False, ''item5'' \<mapsto> False, ''item6'' \<mapsto> True, ''item7'' \<mapsto> False]\<rparr>"

section \<open>The amount loop\<close>

lemma positional_Cons:
  "(\<Sum>i<Suc k. (x # xs) ! i * (10::int) ^ (Suc k - 1 - i)) =
     x * 10 ^ k + (\<Sum>i<k. xs ! i * 10 ^ (k - 1 - i))"
  by (subst sum.lessThan_Suc_shift) simp

lemma amount_loop_positional:
  "map (model_get m) digits = map (\<lambda>x. Inr (Some x)) vals \<Longrightarrow>
   amount_loop m v digits =
     Inr (v * 10 ^ length digits + (\<Sum>i<length digits. vals ! i * 10 ^ (length digits - 1 - i)))"
proof (induction digits arbitrary: v vals)
  case Nil
  then show ?case by simp
next
  case (Cons d ds)
  then obtain x xs where vals: "vals = x # xs" by (cases vals) auto
  with Cons.prems have d: "model_get m d = Inr (Some x)"
    and ds: "map (model_get m) ds = map (\<lambda>x. Inr (Some x)) xs" by auto
  have "amount_loop m v (d # ds) = amount_loop m (v * 10 + x) ds"
    using d by simp
  also have "\<dots> = Inr ((v * 10 + x) * 10 ^ length ds +
      (\<Sum>i<length ds. xs ! i * 10 ^ (length ds - 1 - i)))"
    by (rule Cons.IH [OF ds])
  also have "(v * 10 + x) * 10 ^ length ds + (\<Sum>i<length ds. xs ! i * 10 ^ (length ds - 1 - i)) =
      v * 10 ^ length (d # ds) +
      (\<Sum>i<length (d # ds). vals ! i * 10 ^ (length (d # ds) - 1 - i))"
    unfolding vals length_Cons positional_Cons by (simp add: algebra_simps)
  finally show ?case .
qed

text \<open>
  C8. For every model and every sequence of digit variables that the model holds, with
  values \<open>vals\<close>, the accumulation \<open>v := v * 10 + model[d]\<close> from 0 returns the positional
  sum of \<open>vals ! i * 10 ^ (k - 1 - i)\<close> over \<open>i < k\<close>; the amount of the empty sequence
  is 0.
\<close>

theorem amount_positional:
  "(map (model_get m) digits = map (\<lambda>x. Inr (Some x)) vals \<longrightarrow>
     amount m digits = Inr (\<Sum>i<length digits. vals ! i * 10 ^ (length digits - 1 - i))) \<and>
   amount m [] = Inr 0"
  by (simp add: amount_def amount_loop_positional)

theorem amount_positional_witness:
  "amount \<lparr>num_val = [''M'' \<mapsto> 1, ''O'' \<mapsto> 0, ''N'' \<mapsto> 6, ''E'' \<mapsto> 5, ''Y'' \<mapsto> 2],
            bool_val = Map.empty\<rparr>
      [M_var, O_var, N_var, E_var, Y_var] = Inr 10652"
proof -
  let ?m = "\<lparr>num_val = [''M'' \<mapsto> 1, ''O'' \<mapsto> 0, ''N'' \<mapsto> 6, ''E'' \<mapsto> 5, ''Y'' \<mapsto> (2::int)],
             bool_val = Map.empty\<rparr>"
  have vars: "[M_var, O_var, N_var, E_var, Y_var] =
      map (Var IntSort) [''M'', ''O'', ''N'', ''E'', ''Y'']"
    by (simp add: M_var_def O_var_def N_var_def E_var_def Y_var_def digit_vars_def
        Ints_z3_def Int_z3_def)
  have "map (model_get ?m) [M_var, O_var, N_var, E_var, Y_var] =
      map (\<lambda>x. Inr (Some x)) [1, 0, 6, 5, 2]"
    unfolding vars by simp
  from amount_positional [THEN conjunct1, rule_format, OF this]
  show ?thesis by (simp add: lessThan_Suc eval_nat_numeral)
qed

section \<open>Names, cells and the block transform\<close>

lemma lift2_Some_iff:
  "lift2 f a b = Some c \<longleftrightarrow> (\<exists>x y. a = Some x \<and> b = Some y \<and> c = f x y)"
  by (cases a; cases b) auto

lemma of_char_digit_char: "d < 10 \<Longrightarrow> of_char (digit_char d) = 48 + d"
  by (simp add: digit_char_def)

lemma is_model_simps:
  "is_model m [] \<longleftrightarrow> True"
  "is_model m (c # cs) \<longleftrightarrow> truth m c = Some True \<and> is_model m cs"
  "is_model m (cs @ ds) \<longleftrightarrow> is_model m cs \<and> is_model m ds"
  by (simp_all add: is_model_def)

lemma digit_char_values:
  "digit_char 0 = CHR ''0''" "digit_char 1 = CHR ''1''" "digit_char (Suc 0) = CHR ''1''"
  "digit_char 2 = CHR ''2''"
  "digit_char 3 = CHR ''3''" "digit_char 4 = CHR ''4''" "digit_char 5 = CHR ''5''"
  "digit_char 6 = CHR ''6''" "digit_char 7 = CHR ''7''" "digit_char 8 = CHR ''8''"
  "digit_char 9 = CHR ''9''"
  by code_simp+

lemma str_nat_decode:
  "foldl (\<lambda>a c. 10 * a + (of_char c - 48)) 0 (str_nat n) = n"
proof (induction n rule: str_nat.induct)
  case (1 n)
  show ?case
  proof (cases "n < 10")
    case True
    then show ?thesis
      by (subst str_nat.simps) (simp add: of_char_digit_char)
  next
    case False
    with 1 have IH: "foldl (\<lambda>a c. 10 * a + (of_char c - 48)) 0 (str_nat (n div 10)) = n div 10"
      by simp
    have "n mod 10 < 10" by simp
    then have "of_char (digit_char (n mod 10)) = 48 + n mod 10"
      by (rule of_char_digit_char)
    with False IH show ?thesis
      by (subst str_nat.simps) simp
  qed
qed

lemma str_nat_inj: "str_nat a = str_nat b \<Longrightarrow> a = b"
  by (metis str_nat_decode)

lemma str_int_nat: "str (int n) = str_nat n"
  by (simp add: str_def)

lemma cells_length: "length cells = 81"
  by (simp add: cells_def)

lemma cells_nth: "i < 81 \<Longrightarrow> cells ! i = Var IntSort (str_nat i)"
  by (simp add: cells_def Int_z3_def str_int_nat)

lemma cells_distinct: "distinct cells"
  unfolding cells_def
  by (simp add: distinct_map inj_on_def Int_z3_def str_int_nat str_nat_inj)

lemma cell_index_decode:
  assumes "r < 3" "C < 3" "c < 3"
  shows "cell_index R C r c div 27 = R" "cell_index R C r c div 9 mod 3 = r"
    "cell_index R C r c div 3 mod 3 = C" "cell_index R C r c mod 3 = c"
proof -
  have e9: "cell_index R C r c = (3 * R + r) * 9 + (3 * C + c)"
    by (simp add: cell_index_def)
  have e3: "cell_index R C r c = (9 * R + 3 * r + C) * 3 + c"
    by (simp add: cell_index_def)
  have e27: "cell_index R C r c = R * 27 + (9 * r + 3 * C + c)"
    by (simp add: cell_index_def)
  have lt9: "3 * C + c < 9" and lt27: "9 * r + 3 * C + c < 27"
    using assms by simp_all
  show "cell_index R C r c div 27 = R"
    unfolding e27 using lt27 by simp
  have "cell_index R C r c div 9 = 3 * R + r"
    unfolding e9 using lt9 by simp
  then show "cell_index R C r c div 9 mod 3 = r"
    using assms by simp
  have "cell_index R C r c div 3 = (9 * R + 3 * r) + C"
    unfolding e3 using assms by simp
  also have "\<dots> = C + 3 * (3 * R + r)" by simp
  finally have "cell_index R C r c div 3 mod 3 = C mod 3"
    by (simp only: mod_mult_self2)
  then show "cell_index R C r c div 3 mod 3 = C"
    using assms by simp
  have "cell_index R C r c = c + 3 * (9 * R + 3 * r + C)"
    by (simp add: cell_index_def)
  then have "cell_index R C r c mod 3 = c mod 3"
    by (simp only: mod_mult_self2)
  then show "cell_index R C r c mod 3 = c"
    using assms by simp
qed

lemma cell_index_eqD:
  assumes eq: "cell_index R C r c = cell_index R' C' r' c'"
    and "r < 3" "C < 3" "c < 3" "r' < 3" "C' < 3" "c' < 3"
  shows "R = R' \<and> C = C' \<and> r = r' \<and> c = c'"
proof -
  note d = cell_index_decode [OF assms(2-4), of R] and d' = cell_index_decode [OF assms(5-7), of R']
  have "R = R'" using d(1) d'(1) eq by simp
  moreover have "r = r'" using d(2) d'(2) eq by simp
  moreover have "C = C'" using d(3) d'(3) eq by simp
  moreover have "c = c'" using d(4) d'(4) eq by simp
  ultimately show ?thesis by simp
qed

lemma three: "{0, 1, 2} = {..<3::nat}"
  by auto

lemma cell_index_inj:
  "inj_on (\<lambda>(R, C, r, c). cell_index R C r c) ({..<3} \<times> {..<3} \<times> {..<3} \<times> {..<3})"
  unfolding inj_on_def by (auto dest: cell_index_eqD)

lemma cell_index_range:
  "(\<lambda>(R, C, r, c). cell_index R C r c) ` ({..<3} \<times> {..<3} \<times> {..<3} \<times> {..<3}) = {0..80}"
proof (rule card_subset_eq)
  show "finite {0..80::nat}" by simp
  show "(\<lambda>(R, C, r, c). cell_index R C r c) ` ({..<3} \<times> {..<3} \<times> {..<3} \<times> {..<3}) \<subseteq> {0..80}"
  proof
    fix n assume "n \<in> (\<lambda>(R, C, r, c). cell_index R C r c) ` ({..<3} \<times> {..<3} \<times> {..<3} \<times> {..<3})"
    then obtain R C r c where "n = cell_index R C r c" "R < 3" "C < 3" "r < 3" "c < 3"
      by auto
    then show "n \<in> {0..80}"
      by (simp add: cell_index_def)
  qed
  show "card ((\<lambda>(R, C, r, c). cell_index R C r c) ` ({..<3} \<times> {..<3} \<times> {..<3} \<times> {..<3})) = card {0..80::nat}"
    by (simp add: card_image [OF cell_index_inj])
qed

lemma cell_index_block:
  "(\<lambda>(r, c). cell_index R C r c) ` ({..<3} \<times> {..<3}) =
   (\<lambda>(row, col). 9 * row + col) ` ({3 * R .. 3 * R + 2} \<times> {3 * C .. 3 * C + 2})"
proof (intro equalityI subsetI)
  fix x assume "x \<in> (\<lambda>(r, c). cell_index R C r c) ` ({..<3} \<times> {..<3})"
  then obtain r c where rc: "r < 3" "c < 3" and x: "x = cell_index R C r c"
    by auto
  have "(3 * R + r, 3 * C + c) \<in> {3 * R .. 3 * R + 2} \<times> {3 * C .. 3 * C + 2}"
    using rc by simp
  moreover have "x = (case (3 * R + r, 3 * C + c) of (row, col) \<Rightarrow> 9 * row + col)"
    by (simp add: x cell_index_def)
  ultimately show "x \<in> (\<lambda>(row, col). 9 * row + col) ` ({3 * R .. 3 * R + 2} \<times> {3 * C .. 3 * C + 2})"
    by (rule image_eqI [rotated])
next
  fix x assume "x \<in> (\<lambda>(row, col). 9 * row + col) ` ({3 * R .. 3 * R + 2} \<times> {3 * C .. 3 * C + 2})"
  then obtain row col where row: "3 * R \<le> row" "row \<le> 3 * R + 2"
    and col: "3 * C \<le> col" "col \<le> 3 * C + 2" and x: "x = 9 * row + col"
    by auto
  have "(row - 3 * R, col - 3 * C) \<in> {..<3} \<times> {..<3}"
    using row col by auto
  moreover have "x = (case (row - 3 * R, col - 3 * C) of (r, c) \<Rightarrow> cell_index R C r c)"
    using row col by (simp add: x cell_index_def)
  ultimately show "x \<in> (\<lambda>(r, c). cell_index R C r c) ` ({..<3} \<times> {..<3})"
    by (rule image_eqI [rotated])
qed

lemma collect_map_Inr: "collect (map (\<lambda>x. Inr (f x)) xs) = Inr (map f xs)"
  by (induction xs) simp_all

lemma set_sq3x3: "set sq3x3 = {..<3} \<times> {..<3}"
  by (auto simp: sq3x3_def)

lemma distinct_sq3x3: "distinct sq3x3"
  by (simp add: sq3x3_def distinct_product)

lemma cell_index_less: "R < 3 \<Longrightarrow> C < 3 \<Longrightarrow> r < 3 \<Longrightarrow> c < 3 \<Longrightarrow> cell_index R C r c < 81"
  by (simp add: cell_index_def)

lemma cell_Inr:
  "R < 3 \<Longrightarrow> C < 3 \<Longrightarrow> r < 3 \<Longrightarrow> c < 3 \<Longrightarrow> cell R C r c = Inr (cells ! cell_index R C r c)"
  by (simp add: cell_def cells_length cell_index_less)

lemma block_cells_Inr:
  assumes "R < 3" "C < 3"
  shows "collect (map (\<lambda>(r, c). cell R C r c) sq3x3) =
     Inr (map (\<lambda>(r, c). cells ! cell_index R C r c) sq3x3)"
proof -
  have "map (\<lambda>(r, c). cell R C r c) sq3x3 =
      map (\<lambda>d. Inr (case d of (r, c) \<Rightarrow> cells ! cell_index R C r c)) sq3x3"
    using assms by (auto simp: set_sq3x3 cell_Inr)
  then show ?thesis
    by (simp only: collect_map_Inr)
qed

lemma blocks_value:
  "blocks = Inr (map (\<lambda>(R, C). Distinct (map (\<lambda>(r, c). cells ! cell_index R C r c) sq3x3)) sq3x3)"
proof -
  have "map (\<lambda>(R, C).
       (case collect (map (\<lambda>(r, c). cell R C r c) sq3x3) of
          Inl e \<Rightarrow> Inl e
        | Inr es \<Rightarrow> Inr (Distinct es))) sq3x3 =
      map (\<lambda>p. Inr (case p of (R, C) \<Rightarrow> Distinct (map (\<lambda>(r, c). cells ! cell_index R C r c) sq3x3))) sq3x3"
    by (auto simp: set_sq3x3 block_cells_Inr)
  then show ?thesis
    unfolding blocks_def by (simp only: collect_map_Inr)
qed

lemma concat_map_product:
  "concat (map (\<lambda>p. map (f p) ys) xs) = map (\<lambda>(p, d). f p d) (List.product xs ys)"
  by (induction xs) simp_all

lemma block_indices_product:
  "block_indices = map (\<lambda>((R, C), (r, c)). cell_index R C r c) (List.product sq3x3 sq3x3)"
proof -
  have "(\<lambda>(R, C). map (\<lambda>(r, c). cell_index R C r c) sq3x3) =
      (\<lambda>p. map (\<lambda>d. case p of (R, C) \<Rightarrow> case d of (r, c) \<Rightarrow> cell_index R C r c) sq3x3)"
    by (auto simp: fun_eq_iff)
  then show ?thesis
    unfolding block_indices_def by (simp add: concat_map_product case_prod_unfold)
qed

lemma block_indices_distinct: "distinct block_indices"
  unfolding block_indices_product
proof (subst distinct_map, intro conjI)
  show "distinct (List.product sq3x3 sq3x3)"
    by (simp add: distinct_product distinct_sq3x3)
  show "inj_on (\<lambda>((R, C), (r, c)). cell_index R C r c) (set (List.product sq3x3 sq3x3))"
    unfolding inj_on_def by (auto simp: set_sq3x3 dest: cell_index_eqD)
qed

lemma block_indices_set: "set block_indices = {0..80}"
proof -
  have "set block_indices =
      (\<lambda>(R, C, r, c). cell_index R C r c) ` ({..<3} \<times> {..<3} \<times> {..<3} \<times> {..<3})"
    unfolding block_indices_product by (force simp: set_sq3x3 image_iff)
  then show ?thesis
    by (simp only: cell_index_range)
qed

section \<open>The range constraints\<close>

lemma truth_in_range_elem:
  "truth m (And (Ge var (Num lo)) (Lt var (Num hi))) =
     map_option (\<lambda>x. lo \<le> x \<and> x < hi) (eval m var)"
  by (cases "eval m var") simp_all

text \<open>
  C10. \<open>in_range lo hi\<close> returns one constraint per variable, in order; the \<open>i\<close>-th
  constraint has the truth value of \<open>lo \<le> v \<and> v < hi\<close> at the value \<open>v\<close> of the \<open>i\<close>-th
  variable (and none where the variable has none). The upper bound is exclusive: over the
  integers \<open>in_range 0 10\<close> confines a variable to 0..9 and \<open>in_range 1 10\<close> to 1..9.
\<close>

theorem in_range_bounds:
  "length (in_range lo hi vars) = length vars \<and>
   (\<forall>i<length vars. \<forall>m.
      truth m (in_range lo hi vars ! i) =
        map_option (\<lambda>x. lo \<le> x \<and> x < hi) (eval m (vars ! i))) \<and>
   (\<forall>i<length ivars. \<forall>m.
      truth m (in_range 0 10 ivars ! i) =
        map_option (\<lambda>x. x \<in> {0..9::int}) (eval m (ivars ! i))) \<and>
   (\<forall>i<length ivars. \<forall>m.
      truth m (in_range 1 10 ivars ! i) =
        map_option (\<lambda>x. x \<in> {1..9::int}) (eval m (ivars ! i)))"
proof -
  have int_iff: "(l \<le> x \<and> x < 10) = (x \<in> {l..9})" for l x :: int
    by auto
  show ?thesis
    by (simp add: in_range_def truth_in_range_elem int_iff del: truth.simps eval.simps)
qed

theorem in_range_bounds_witness:
  "truth \<lparr>num_val = [''S'' \<mapsto> 9, ''M'' \<mapsto> 1], bool_val = Map.empty\<rparr>
      (in_range 1 10 [S_var, M_var] ! 0) = Some True \<and>
   truth \<lparr>num_val = [''S'' \<mapsto> 0, ''M'' \<mapsto> 1], bool_val = Map.empty\<rparr>
      (in_range 1 10 [S_var, M_var] ! 0) = Some False \<and>
   truth \<lparr>num_val = [''S'' \<mapsto> 10, ''M'' \<mapsto> 1], bool_val = Map.empty\<rparr>
      (in_range 0 10 [S_var, M_var] ! 0) = Some False"
proof -
  have S: "S_var = Var IntSort ''S''"
    by (simp add: S_var_def digit_vars_def Ints_z3_def Int_z3_def)
  have len: "0 < length [S_var, M_var]" by simp
  note b = in_range_bounds [of 0 10 "[]" "[S_var, M_var]"]
  note r0 = b [THEN conjunct2, THEN conjunct2, THEN conjunct1, rule_format, OF len]
  note r1 = b [THEN conjunct2, THEN conjunct2, THEN conjunct2, rule_format, OF len]
  show ?thesis
    unfolding r0 r1 by (simp add: S)
qed

section \<open>The block transform covers the grid\<close>

lemma block_cells_distinct: "distinct (map (\<lambda>i. cells ! i) block_indices)"
proof -
  have "inj_on (\<lambda>i. cells ! i) (set block_indices)"
    by (rule inj_on_nth [OF cells_distinct]) (simp add: block_indices_set cells_length)
  then show ?thesis
    by (simp add: distinct_map block_indices_distinct)
qed

lemma block_cells_set: "set (map (\<lambda>i. cells ! i) block_indices) = set cells"
proof -
  have "{0..80::nat} = {0..<length cells}"
    by (auto simp: cells_length)
  then have "set (map (\<lambda>i. cells ! i) block_indices) = (\<lambda>i. cells ! i) ` {0..<length cells}"
    by (simp only: set_map block_indices_set)
  also have "\<dots> = set (take (length cells) cells)"
    by (rule nth_image) simp
  finally show ?thesis by simp
qed

text \<open>
  C7. On \<open>R, C, r, c\<close> in \<open>{0, 1, 2}\<close> the transform \<open>9 * (3 * R + r) + 3 * C + c\<close> is
  injective with range \<open>{0..80}\<close>. For a fixed block \<open>(R, C)\<close> its nine indices are the
  cells of grid rows \<open>3R..3R+2\<close> and grid columns \<open>3C..3C+2\<close> (the cell at row \<open>i\<close> and
  column \<open>j\<close> has index \<open>9 * i + j\<close>). The nine block constraints are built without an
  index error, and the cells they read, taken together, are every cell once.
\<close>

theorem cell_transform_cover:
  "inj_on (\<lambda>(R, C, r, c). cell_index R C r c) ({0,1,2} \<times> {0,1,2} \<times> {0,1,2} \<times> {0,1,2}) \<and>
   (\<lambda>(R, C, r, c). cell_index R C r c) ` ({0,1,2} \<times> {0,1,2} \<times> {0,1,2} \<times> {0,1,2}) = {0..80} \<and>
   (\<forall>R\<in>{0,1,2}. \<forall>C\<in>{0,1,2}.
      (\<lambda>(r, c). cell_index R C r c) ` ({0,1,2} \<times> {0,1,2}) =
      (\<lambda>(row, col). 9 * row + col) ` ({3 * R .. 3 * R + 2} \<times> {3 * C .. 3 * C + 2})) \<and>
   blocks = Inr (map (\<lambda>(R, C). Distinct (map (\<lambda>(r, c). cells ! cell_index R C r c) sq3x3)) sq3x3) \<and>
   distinct block_indices \<and> set block_indices = {0..80} \<and>
   distinct (map (\<lambda>i. cells ! i) block_indices) \<and>
   set (map (\<lambda>i. cells ! i) block_indices) = set cells \<and> length cells = 81"
  unfolding three
  by (intro conjI ballI cell_index_inj cell_index_range cell_index_block blocks_value
      block_indices_distinct block_indices_set block_cells_distinct block_cells_set cells_length)

theorem cell_transform_cover_witness:
  "(\<lambda>(r, c). cell_index 1 2 r c) ` ({0,1,2} \<times> {0,1,2}) =
     (\<lambda>(row, col). 9 * row + col) ` ({3..5} \<times> {6..8}) \<and>
   cell_index 1 2 0 0 = 33 \<and> cell_index 1 2 2 2 = 53"
proof -
  have mem: "(1::nat) \<in> {0,1,2}" "(2::nat) \<in> {0,1,2}" by simp_all
  note b = cell_transform_cover [THEN conjunct2, THEN conjunct2, THEN conjunct1]
  from b [rule_format, OF mem]
  have "(\<lambda>(r, c). cell_index 1 2 r c) ` ({0,1,2} \<times> {0,1,2}) =
      (\<lambda>(row, col). 9 * row + col) ` ({3 * 1 .. 3 * 1 + 2} \<times> {3 * 2 .. 3 * 2 + 2})" .
  then show ?thesis
    by (simp add: cell_index_def)
qed

section \<open>The kinematics query has one model\<close>

lemma kinematics_vars_value:
  "u_var = Var RealSort ''u''" "v_var = Var RealSort ''v''" "s_var = Var RealSort ''s''"
  "a_var = Var RealSort ''a''" "t_var = Var RealSort ''t''"
  by (simp_all add: u_var_def v_var_def s_var_def a_var_def t_var_def kinematics_vars_def
      Reals_z3_def Real_z3_def)

text \<open>
  C4. With the bindings \<open>u = 10\<close>, \<open>a = 1\<close>, \<open>v = 20\<close> added to the two rules, a model
  satisfies the query exactly when it holds \<open>t = 10\<close> and \<open>s = 150\<close> beside the bound
  values: that assignment satisfies both rules, and no other value of \<open>t\<close> or \<open>s\<close> does.
\<close>

theorem kinematics_unique:
  "(is_model m kinematics_query \<longleftrightarrow>
      num_val m ''u'' = Some 10 \<and> num_val m ''a'' = Some 1 \<and> num_val m ''v'' = Some 20 \<and>
      num_val m ''t'' = Some 10 \<and> num_val m ''s'' = Some 150) \<and>
   (num_val m ''u'' = Some 10 \<and> num_val m ''a'' = Some 1 \<and> num_val m ''v'' = Some 20 \<and>
      num_val m ''t'' = Some 10 \<and> num_val m ''s'' = Some 150 \<longrightarrow> is_model m rules)"
proof -
  have "is_model m kinematics_query \<longleftrightarrow>
      (\<exists>u a v t s. num_val m ''u'' = Some u \<and> num_val m ''a'' = Some a \<and> num_val m ''v'' = Some v \<and>
         num_val m ''t'' = Some t \<and> num_val m ''s'' = Some s \<and>
         u = 10 \<and> a = 1 \<and> v = 20 \<and> v = u + a * t \<and> s = u * t + a * t * t / 2)"
    unfolding is_model_def kinematics_query_def rules_def kinematics_vars_value
    by (auto simp: lift2_Some_iff)
  also have "\<dots> \<longleftrightarrow> num_val m ''u'' = Some 10 \<and> num_val m ''a'' = Some 1 \<and> num_val m ''v'' = Some 20 \<and>
      num_val m ''t'' = Some 10 \<and> num_val m ''s'' = Some 150"
    by auto
  finally have A: "is_model m kinematics_query \<longleftrightarrow>
      num_val m ''u'' = Some 10 \<and> num_val m ''a'' = Some 1 \<and> num_val m ''v'' = Some 20 \<and>
      num_val m ''t'' = Some 10 \<and> num_val m ''s'' = Some 150" .
  have B: "is_model m kinematics_query \<Longrightarrow> is_model m rules"
    by (simp add: is_model_def kinematics_query_def)
  from A B show ?thesis by blast
qed

theorem kinematics_unique_witness:
  "is_model \<lparr>num_val = [''u'' \<mapsto> 10, ''a'' \<mapsto> 1, ''v'' \<mapsto> 20, ''t'' \<mapsto> 10, ''s'' \<mapsto> 150],
              bool_val = Map.empty\<rparr> rules \<and>
   is_model \<lparr>num_val = [''u'' \<mapsto> 10, ''a'' \<mapsto> 1, ''v'' \<mapsto> 20, ''t'' \<mapsto> 10, ''s'' \<mapsto> 150],
              bool_val = Map.empty\<rparr> kinematics_query \<and>
   \<not> is_model \<lparr>num_val = [''u'' \<mapsto> 10, ''a'' \<mapsto> 1, ''v'' \<mapsto> 20, ''t'' \<mapsto> 10, ''s'' \<mapsto> 151],
              bool_val = Map.empty\<rparr> kinematics_query"
  using kinematics_unique [of "\<lparr>num_val = [''u'' \<mapsto> 10, ''a'' \<mapsto> 1, ''v'' \<mapsto> 20, ''t'' \<mapsto> 10, ''s'' \<mapsto> 150],
              bool_val = Map.empty\<rparr>"]
    kinematics_unique [of "\<lparr>num_val = [''u'' \<mapsto> 10, ''a'' \<mapsto> 1, ''v'' \<mapsto> 20, ''t'' \<mapsto> 10, ''s'' \<mapsto> 151],
              bool_val = Map.empty\<rparr>"]
  by simp

section \<open>Variable names\<close>

lemma naming_consistent_distinct: "distinct (map fst ds) \<Longrightarrow> naming_consistent ds"
proof -
  assume "distinct (map fst ds)"
  then have "inj_on fst (set ds)"
    by (simp add: distinct_map)
  then have "s = s'" if "(n, s) \<in> set ds" "(n, s') \<in> set ds" for n s s'
    using that inj_onD [of fst "set ds" "(n, s)" "(n, s')"] by simp
  then show ?thesis
    unfolding naming_consistent_def by blast
qed

lemma decls_of_map_Var: "decls_of (map (\<lambda>i. Var srt (f i)) xs) = map (\<lambda>i. (f i, srt)) xs"
  unfolding decls_of_def by (induction xs) (simp_all add: List.map_filter_simps)

lemma decls_of_kinematics:
  "decls_of kinematics_vars =
     [(''u'', RealSort), (''v'', RealSort), (''s'', RealSort), (''a'', RealSort), (''t'', RealSort)]"
  by (simp add: decls_of_def kinematics_vars_def Reals_z3_def Real_z3_def List.map_filter_simps)

lemma decls_of_digits:
  "decls_of digit_vars =
     [(''S'', IntSort), (''E'', IntSort), (''N'', IntSort), (''D'', IntSort),
      (''M'', IntSort), (''O'', IntSort), (''R'', IntSort), (''Y'', IntSort)]"
  by (simp add: decls_of_def digit_vars_def Ints_z3_def Int_z3_def List.map_filter_simps)

lemma decls_of_cells: "decls_of cells = map (\<lambda>i. (str (int i), IntSort)) [0..<81]"
  unfolding cells_def Int_z3_def by (rule decls_of_map_Var)

lemma selections_value:
  "selections = map BVar [''item0'', ''item1'', ''item2'', ''item3'', ''item4'', ''item5'',
     ''item6'', ''item7'']"
proof -
  have "[0..<8] = [0, 1, 2, 3, 4, 5, 6, 7::nat]"
    by (simp add: upt_rec)
  moreover have "map str_nat [0, 1, 2, 3, 4, 5, 6, 7] = [''0'', ''1'', ''2'', ''3'', ''4'', ''5'', ''6'', ''7'']"
    by (simp add: str_nat.simps digit_char_values)
  moreover have "length values = 8"
    by (simp add: values_def)
  ultimately show ?thesis
    unfolding selections_def Bool_z3_def str_int_nat by simp
qed

lemma decls_of_selections:
  "bool_decls_of selections =
     [(''item0'', BoolSort), (''item1'', BoolSort), (''item2'', BoolSort), (''item3'', BoolSort),
      (''item4'', BoolSort), (''item5'', BoolSort), (''item6'', BoolSort), (''item7'', BoolSort)]"
  by (simp add: bool_decls_of_def selections_value List.map_filter_simps)

lemma cell_names_distinct: "distinct (map fst (decls_of cells))"
  unfolding decls_of_cells
  by (simp add: distinct_map comp_def inj_on_def str_int_nat str_nat_inj)

text \<open>
  C9. Within each of the four problems the declared variables have pairwise different
  names, so no name occurs with two sorts: five \<open>Real\<close> names \<open>u, v, s, a, t\<close>, eight \<open>Int\<close>
  names \<open>S, E, N, D, M, O, R, Y\<close>, the 81 \<open>Int\<close> names \<open>str 0\<close> to \<open>str 80\<close>, and eight
  \<open>Bool\<close> names \<open>item0\<close> to \<open>item7\<close>.
\<close>

theorem declared_names_consistent:
  "decls_of kinematics_vars =
     [(''u'', RealSort), (''v'', RealSort), (''s'', RealSort), (''a'', RealSort), (''t'', RealSort)] \<and>
   decls_of digit_vars =
     [(''S'', IntSort), (''E'', IntSort), (''N'', IntSort), (''D'', IntSort),
      (''M'', IntSort), (''O'', IntSort), (''R'', IntSort), (''Y'', IntSort)] \<and>
   decls_of cells = map (\<lambda>i. (str (int i), IntSort)) [0..<81] \<and>
   length (decls_of cells) = length cells \<and> str 0 = ''0'' \<and> str 80 = ''80'' \<and>
   bool_decls_of selections =
     [(''item0'', BoolSort), (''item1'', BoolSort), (''item2'', BoolSort), (''item3'', BoolSort),
      (''item4'', BoolSort), (''item5'', BoolSort), (''item6'', BoolSort), (''item7'', BoolSort)] \<and>
   distinct (map fst (decls_of kinematics_vars)) \<and> distinct (map fst (decls_of digit_vars)) \<and>
   distinct (map fst (decls_of cells)) \<and> distinct (map fst (bool_decls_of selections)) \<and>
   naming_consistent (decls_of kinematics_vars) \<and> naming_consistent (decls_of digit_vars) \<and>
   naming_consistent (decls_of cells) \<and> naming_consistent (bool_decls_of selections)"
proof -
  have k: "distinct (map fst (decls_of kinematics_vars))"
    by (simp add: decls_of_kinematics)
  have d: "distinct (map fst (decls_of digit_vars))"
    by (simp add: decls_of_digits)
  have b: "distinct (map fst (bool_decls_of selections))"
    by (simp add: decls_of_selections)
  have s0: "str 0 = ''0''" and s80: "str 80 = ''80''"
    by (simp_all add: str_def str_nat.simps digit_char_values)
  have len: "length (decls_of cells) = length cells"
    by (simp add: decls_of_cells cells_length)
  show ?thesis
    by (intro conjI decls_of_kinematics decls_of_digits decls_of_cells decls_of_selections
        k d b cell_names_distinct naming_consistent_distinct s0 s80 len)
qed

theorem declared_names_consistent_witness:
  "(''s'', RealSort) \<in> set (decls_of kinematics_vars) \<and>
   (''s'', IntSort) \<notin> set (decls_of kinematics_vars) \<and>
   naming_consistent
     [(''u'', RealSort), (''v'', RealSort), (''s'', RealSort), (''a'', RealSort), (''t'', RealSort)]"
proof -
  note k = declared_names_consistent [THEN conjunct1]
  have "naming_consistent (decls_of kinematics_vars)"
    using declared_names_consistent by blast
  then show ?thesis
    by (simp add: k)
qed

section \<open>The cryptarithm has one solution\<close>

lemma send_more_money_unique:
  fixes S E N D M O' R Y :: int
  assumes eq: "1000 * S + 100 * E + 10 * N + D + 1000 * M + 100 * O' + 10 * R + E =
      10000 * M + 1000 * O' + 100 * N + 10 * E + Y"
    and dist: "distinct [S, E, N, D, M, O', R, Y]"
    and lo: "0 \<le> S" "0 \<le> E" "0 \<le> N" "0 \<le> D" "0 \<le> M" "0 \<le> O'" "0 \<le> R" "0 \<le> Y"
    and hi: "S < 10" "E < 10" "N < 10" "D < 10" "M < 10" "O' < 10" "R < 10" "Y < 10"
    and lead: "1 \<le> S" "1 \<le> M"
  shows "S = 9 \<and> E = 5 \<and> N = 6 \<and> D = 7 \<and> M = 1 \<and> O' = 0 \<and> R = 8 \<and> Y = 2"
proof -
  have M: "M = 1"
    using eq lo hi lead by linarith
  have "O' \<le> 1"
    using eq lo hi M by linarith
  moreover have "O' \<noteq> M"
    using dist by auto
  ultimately have O: "O' = 0"
    using lo M by linarith
  have S: "S = 9"
    using eq lo hi M O by linarith
  have eq': "91 * E + D + 10 * R = 90 * N + Y"
    using eq M O S by linarith
  have "N \<noteq> E"
    using dist by auto
  moreover have "N - E \<le> 1" "0 \<le> N - E"
    using eq' lo hi by linarith+
  ultimately have N: "N = E + 1"
    by linarith
  have eq'': "E + D + 10 * R = 90 + Y"
    using eq' N by linarith
  have "R \<noteq> S"
    using dist by auto
  moreover have "8 \<le> R"
    using eq'' lo hi by linarith
  ultimately have R: "R = 8"
    using hi S by linarith
  have eq3: "E + D = 10 + Y"
    using eq'' R by linarith
  have ne: "Y \<noteq> 0" "Y \<noteq> 1" "E \<noteq> 9" "E \<noteq> 8" "N \<noteq> 8" "N \<noteq> 9" "D \<noteq> 8" "D \<noteq> 9" "D \<noteq> E" "D \<noteq> N"
    using dist M O S R by auto
  have Y2: "2 \<le> Y"
    using ne(1,2) lo(8) by linarith
  have E6: "E \<le> 6"
    using ne(5,6) N hi(3) by linarith
  have D7: "D \<le> 7"
    using ne(7,8) hi(4) by linarith
  have "E = 5 \<and> D = 7"
    using eq3 Y2 E6 D7 ne(9,10) N by linarith
  then show ?thesis
    using M O S R N eq3 by simp
qed

lemma digit_vars_value:
  "S_var = Var IntSort ''S''" "E_var = Var IntSort ''E''" "N_var = Var IntSort ''N''"
  "D_var = Var IntSort ''D''" "M_var = Var IntSort ''M''" "O_var = Var IntSort ''O''"
  "R_var = Var IntSort ''R''" "Y_var = Var IntSort ''Y''"
  by (simp_all add: S_var_def E_var_def N_var_def D_var_def M_var_def O_var_def R_var_def
      Y_var_def digit_vars_def Ints_z3_def Int_z3_def)

lemma in_range_var_holds:
  "truth m (And (Ge (Var srt x) (Num lo)) (Lt (Var srt x) (Num hi))) = Some True \<longleftrightarrow>
     (\<exists>v. num_val m x = Some v \<and> lo \<le> v \<and> v < hi)"
  unfolding truth_in_range_elem by (cases "num_val m x") auto

lemma cryptarithm_model_values:
  assumes "is_model m cryptarithm_s"
  shows "\<exists>S E N D M O' R Y.
      num_val m ''S'' = Some S \<and> num_val m ''E'' = Some E \<and> num_val m ''N'' = Some N \<and>
      num_val m ''D'' = Some D \<and> num_val m ''M'' = Some M \<and> num_val m ''O'' = Some O' \<and>
      num_val m ''R'' = Some R \<and> num_val m ''Y'' = Some Y \<and>
      S = 9 \<and> E = 5 \<and> N = 6 \<and> D = 7 \<and> M = 1 \<and> O' = 0 \<and> R = 8 \<and> Y = 2"
proof -
  from assms have eqn: "truth m send_more_money = Some True"
    and dist: "truth m (Distinct [S_var, E_var, N_var, D_var, M_var, O_var, R_var, Y_var]) = Some True"
    and r0: "is_model m (in_range 0 10 [S_var, E_var, N_var, D_var, M_var, O_var, R_var, Y_var])"
    and r1: "is_model m (in_range 1 10 [S_var, M_var])"
    by (simp_all add: cryptarithm_s_def add_def Solver_def is_model_simps)
  from r0 obtain S E N D M O' R Y where
    v: "num_val m ''S'' = Some S" "num_val m ''E'' = Some E" "num_val m ''N'' = Some N"
      "num_val m ''D'' = Some D" "num_val m ''M'' = Some M" "num_val m ''O'' = Some O'"
      "num_val m ''R'' = Some R" "num_val m ''Y'' = Some Y"
    and lo: "0 \<le> S" "0 \<le> E" "0 \<le> N" "0 \<le> D" "0 \<le> M" "0 \<le> O'" "0 \<le> R" "0 \<le> Y"
    and hi: "S < 10" "E < 10" "N < 10" "D < 10" "M < 10" "O' < 10" "R < 10" "Y < 10"
    unfolding in_range_def digit_vars_value list.map is_model_simps in_range_var_holds
    by blast
  from r1 have lead: "1 \<le> S" "1 \<le> M"
    unfolding in_range_def digit_vars_value list.map is_model_simps in_range_var_holds
    using v by auto
  from eqn have eq: "1000 * S + 100 * E + 10 * N + D + 1000 * M + 100 * O' + 10 * R + E =
      10000 * M + 1000 * O' + 100 * N + 10 * E + Y"
    by (simp add: send_more_money_def digit_vars_value v)
  from dist have d: "distinct [S, E, N, D, M, O', R, Y]"
    by (simp add: digit_vars_value v)
  from send_more_money_unique [OF eq d lo hi lead] v show ?thesis
    by blast
qed

text \<open>
  C2. In a model of the cryptarithm's constraints the eight digits read back for
  \<open>S, E, N, D, M, O, R, Y\<close> are pairwise distinct, each lies in 0..9, the leading digits
  \<open>S\<close> and \<open>M\<close> lie in 1..9, the digits satisfy SEND + MORE = MONEY in decimal, and the
  amount rebuilt from \<open>M, O, N, E, Y\<close> is 10652.
\<close>

theorem cryptarithm_model:
  assumes "is_model m cryptarithm_s"
  shows "\<exists>S E N D M O' R Y.
      map (model_get m) [S_var, E_var, N_var, D_var, M_var, O_var, R_var, Y_var] =
        map (\<lambda>x. Inr (Some x)) [S, E, N, D, M, O', R, Y] \<and>
      distinct [S, E, N, D, M, O', R, Y] \<and>
      (\<forall>x\<in>set [S, E, N, D, M, O', R, Y]. 0 \<le> x \<and> x \<le> 9) \<and>
      1 \<le> S \<and> S \<le> 9 \<and> 1 \<le> M \<and> M \<le> 9 \<and>
      (1000 * S + 100 * E + 10 * N + D) + (1000 * M + 100 * O' + 10 * R + E) =
        10000 * M + 1000 * O' + 100 * N + 10 * E + Y \<and>
      amount m [M_var, O_var, N_var, E_var, Y_var] = Inr 10652"
proof -
  from cryptarithm_model_values [OF assms] obtain S E N D M O' R Y where
    v: "num_val m ''S'' = Some S" "num_val m ''E'' = Some E" "num_val m ''N'' = Some N"
      "num_val m ''D'' = Some D" "num_val m ''M'' = Some M" "num_val m ''O'' = Some O'"
      "num_val m ''R'' = Some R" "num_val m ''Y'' = Some Y"
    and s: "S = 9" "E = 5" "N = 6" "D = 7" "M = 1" "O' = 0" "R = 8" "Y = 2"
    by blast
  have get: "map (model_get m) [S_var, E_var, N_var, D_var, M_var, O_var, R_var, Y_var] =
      map (\<lambda>x. Inr (Some x)) [S, E, N, D, M, O', R, Y]"
    by (simp add: digit_vars_value v)
  have am: "amount m [M_var, O_var, N_var, E_var, Y_var] = Inr 10652"
    by (simp add: amount_def digit_vars_value v s)
  have rest: "distinct [S, E, N, D, M, O', R, Y] \<and>
      (\<forall>x\<in>set [S, E, N, D, M, O', R, Y]. 0 \<le> x \<and> x \<le> 9) \<and>
      1 \<le> S \<and> S \<le> 9 \<and> 1 \<le> M \<and> M \<le> 9 \<and>
      (1000 * S + 100 * E + 10 * N + D) + (1000 * M + 100 * O' + 10 * R + E) =
        10000 * M + 1000 * O' + 100 * N + 10 * E + Y"
    by (simp add: s)
  from get am rest show ?thesis
    by blast
qed

theorem cryptarithm_model_witness:
  "is_model \<lparr>num_val = [''S'' \<mapsto> 9, ''E'' \<mapsto> 5, ''N'' \<mapsto> 6, ''D'' \<mapsto> 7,
                        ''M'' \<mapsto> 1, ''O'' \<mapsto> 0, ''R'' \<mapsto> 8, ''Y'' \<mapsto> 2],
              bool_val = Map.empty\<rparr> cryptarithm_s \<and>
   amount \<lparr>num_val = [''S'' \<mapsto> 9, ''E'' \<mapsto> 5, ''N'' \<mapsto> 6, ''D'' \<mapsto> 7,
                      ''M'' \<mapsto> 1, ''O'' \<mapsto> 0, ''R'' \<mapsto> 8, ''Y'' \<mapsto> 2],
            bool_val = Map.empty\<rparr> [M_var, O_var, N_var, E_var, Y_var] = Inr 10652"
proof -
  let ?m = "\<lparr>num_val = [''S'' \<mapsto> 9, ''E'' \<mapsto> 5, ''N'' \<mapsto> 6, ''D'' \<mapsto> 7,
                        ''M'' \<mapsto> 1, ''O'' \<mapsto> 0, ''R'' \<mapsto> 8, ''Y'' \<mapsto> (2::int)],
             bool_val = Map.empty\<rparr>"
  have model: "is_model ?m cryptarithm_s"
    by (simp add: cryptarithm_s_def add_def Solver_def in_range_def send_more_money_def
        digit_vars_value is_model_simps)
  from cryptarithm_model [OF model] have "amount ?m [M_var, O_var, N_var, E_var, Y_var] = Inr 10652"
    by blast
  with model show ?thesis
    by simp
qed


section \<open>The knapsack optimum\<close>

lemma eval_foldl_Plus:
  "map (eval m) es = map Some vs \<Longrightarrow> eval m acc = Some a \<Longrightarrow>
   eval m (foldl Plus acc es) = Some (a + sum_list vs)"
proof (induction es arbitrary: acc a vs)
  case Nil
  then show ?case by simp
next
  case (Cons e es)
  then obtain v vs' where vs: "vs = v # vs'" by (cases vs) auto
  with Cons.prems have e: "eval m e = Some v" and es: "map (eval m) es = map Some vs'"
    by auto
  have "eval m (Plus acc e) = Some (a + v)"
    using Cons.prems(2) e by simp
  from Cons.IH [OF es this] show ?case
    by (simp add: vs add.assoc)
qed

lemma eval_foldl_Plus_defined:
  "eval m (foldl Plus acc es) = Some v \<Longrightarrow> \<exists>vs. map (eval m) es = map Some vs"
proof (induction es arbitrary: v rule: rev_induct)
  case Nil
  then show ?case by simp
next
  case (snoc e es)
  from snoc.prems obtain x y where x: "eval m (foldl Plus acc es) = Some x" and y: "eval m e = Some y"
    by (auto simp: lift2_Some_iff)
  from snoc.IH [OF x] obtain vs where "map (eval m) es = map Some vs"
    by blast
  with y have "map (eval m) (es @ [e]) = map Some (vs @ [y])"
    by simp
  then show ?case by blast
qed

lemma eval_bool_times:
  "eval m (bool_times s w) = map_option (\<lambda>t. if t then w else 0) (truth m s)"
  by (cases "truth m s") (simp_all add: bool_times_def)

lemma eval_selected_terms:
  "map (truth m) ss = map Some sel \<Longrightarrow>
   map (eval m) (map (\<lambda>(s, w). bool_times s w) (zip ss ws)) =
     map Some (map (\<lambda>(s, x). if s then x else 0) (zip sel ws))"
proof (induction ss arbitrary: sel ws)
  case Nil
  then show ?case by simp
next
  case (Cons s ss)
  then obtain b sel' where sel: "sel = b # sel'" by (cases sel) auto
  with Cons.prems have s: "truth m s = Some b" and ss: "map (truth m) ss = map Some sel'"
    by auto
  show ?case
  proof (cases ws)
    case Nil
    then show ?thesis by simp
  next
    case (Cons w ws')
    with Cons.IH [OF ss, of ws'] s show ?thesis
      by (simp add: sel eval_bool_times)
  qed
qed

lemma eval_selected_sum:
  assumes "map (truth m) ss = map Some sel"
  shows "eval m (sum_py (map (\<lambda>(s, w). bool_times s w) (zip ss ws))) = Some (selected_sum sel ws)"
  unfolding sum_py_def selected_sum_def
  using eval_foldl_Plus [OF eval_selected_terms [OF assms], of "Num 0" 0 ws] by simp

lemma selections_defined:
  assumes "eval m (sum_py (map (\<lambda>(s, w). bool_times s w) (zip ss ws))) = Some v"
    and "length ss = length ws"
  shows "\<exists>sel. map (truth m) ss = map Some sel"
proof -
  from assms(1) obtain vs where
    vs: "map (eval m) (map (\<lambda>(s, w). bool_times s w) (zip ss ws)) = map Some vs"
    unfolding sum_py_def by (blast dest: eval_foldl_Plus_defined)
  have "\<forall>s\<in>set ss. \<exists>b. truth m s = Some b"
  proof
    fix s assume "s \<in> set ss"
    then obtain i where i: "i < length ss" "ss ! i = s"
      by (auto simp: in_set_conv_nth)
    from vs have "length vs = length ss"
      using assms(2) by (metis length_map length_zip min.idem)
    with vs i assms(2) have "eval m (bool_times s (ws ! i)) = Some (vs ! i)"
      by (metis (no_types, lifting) case_prod_conv length_map length_zip min.idem nth_map nth_zip)
    then show "\<exists>b. truth m s = Some b"
      by (cases "truth m s") (simp_all add: eval_bool_times)
  qed
  then show ?thesis
  proof (induction ss)
    case Nil
    then show ?case by simp
  next
    case (Cons s ss)
    then obtain b sel where "truth m s = Some b" "map (truth m) ss = map Some sel"
      by auto
    then have "map (truth m) (s # ss) = map Some (b # sel)"
      by simp
    then show ?case by blast
  qed
qed

lemma knapsack_bound:
  fixes b0 b1 b2 b3 b4 b5 b6 b7 :: bool
  assumes "total_weight [b0, b1, b2, b3, b4, b5, b6, b7] \<le> 80"
  shows "total_value [b0, b1, b2, b3, b4, b5, b6, b7] \<le> 862"
proof -
  from assms have w: "(if b0 then 7 else 0) + ((if b2 then 30 else 0) + ((if b3 then 22 else 0) +
      ((if b4 then 80 else 0) + ((if b5 then 94 else 0) + ((if b6 then 11 else 0) +
      (if b7 then 81 else 0)))))) \<le> (80::int)"
    by (simp add: total_weight_def selected_sum_def weights_def)
  have n5: "\<not> b5" and n7: "\<not> b7"
    using w by (auto split: if_splits)
  show ?thesis
  proof (cases b4)
    case True
    with w have "\<not> b0" "\<not> b2" "\<not> b3" "\<not> b6"
      by (auto split: if_splits)
    with True n5 n7 show ?thesis
      by (simp add: total_value_def selected_sum_def values_def)
  next
    case False
    with n5 n7 show ?thesis
      by (simp add: total_value_def selected_sum_def values_def)
  qed
qed

lemma length8:
  "length xs = 8 \<Longrightarrow> \<exists>x0 x1 x2 x3 x4 x5 x6 x7. xs = [x0, x1, x2, x3, x4, x5, x6, x7]"
  by (auto simp: eval_nat_numeral length_Suc_conv)

lemma knapsack_bound_list:
  "length sel = 8 \<Longrightarrow> total_weight sel \<le> 80 \<Longrightarrow> total_value sel \<le> 862"
  using knapsack_bound length8 by metis

lemma selections_length: "length selections = 8"
  by (simp add: selections_def values_def)

lemma knapsack_eval:
  assumes "map (truth m) selections = map Some sel"
  shows "is_model m (assertions knapsack) \<longleftrightarrow> total_weight sel \<le> capacity"
    and "eval m (objective knapsack) = Some (total_value sel)"
  using eval_selected_sum [OF assms, of weights] eval_selected_sum [OF assms, of "values"]
  by (simp_all add: knapsack_def is_model_simps total_weight_def total_value_def)

lemma best_model_selections:
  "map (truth best_model) selections =
     map Some [True, True, True, True, False, False, True, False]"
  by (simp add: selections_value best_model_def)

lemma best_model_feasible:
  "is_model best_model (assertions knapsack)"
  "eval best_model (objective knapsack) = Some 862"
  unfolding knapsack_eval [OF best_model_selections]
  by (simp_all add: total_weight_def total_value_def selected_sum_def weights_def values_def
      capacity_def)

lemma knapsack_feasible_bound:
  assumes "is_model m (assertions knapsack)" and "eval m (objective knapsack) = Some v"
  shows "v \<le> 862"
proof -
  from assms(2) obtain sel where sel: "map (truth m) selections = map Some sel"
    unfolding knapsack_def
    by (auto dest!: selections_defined simp: selections_length values_def)
  then have "length sel = 8"
    using selections_length by (metis length_map)
  moreover have "total_weight sel \<le> 80"
    using assms(1) knapsack_eval(1) [OF sel] by (simp add: capacity_def)
  ultimately have "total_value sel \<le> 862"
    by (rule knapsack_bound_list)
  with assms(2) knapsack_eval(2) [OF sel] show ?thesis
    by simp
qed

text \<open>
  C1. When the optimizing solve returns the model \<open>m\<close> with the objective value \<open>best\<close>,
  the selection read from \<open>m\<close> has total weight at most the capacity 80, its total value
  is \<open>best\<close>, no selection of total weight at most 80 has a greater total value, and
  \<open>best\<close> is 862.
\<close>

theorem knapsack_optimum:
  assumes "is_optimum m best knapsack"
  shows "\<exists>sel. map (truth m) selections = map Some sel \<and>
      total_weight sel \<le> capacity \<and> capacity = 80 \<and>
      total_value sel = best \<and>
      (\<forall>sel'. length sel' = length selections \<and> total_weight sel' \<le> capacity \<longrightarrow>
         total_value sel' \<le> total_value sel) \<and>
      best = 862"
proof -
  from assms have mdl: "is_model m (assertions knapsack)"
    and obj: "eval m (objective knapsack) = Some best"
    and opt: "\<And>m' v. is_model m' (assertions knapsack) \<Longrightarrow>
        eval m' (objective knapsack) = Some v \<Longrightarrow> v \<le> best"
    unfolding is_optimum_def by blast+
  from obj obtain sel where sel: "map (truth m) selections = map Some sel"
    unfolding knapsack_def
    by (auto dest!: selections_defined simp: selections_length values_def)
  have w: "total_weight sel \<le> capacity"
    using mdl knapsack_eval(1) [OF sel] by simp
  have v: "total_value sel = best"
    using obj knapsack_eval(2) [OF sel] by simp
  have "best \<le> 862"
    using mdl obj by (rule knapsack_feasible_bound)
  moreover have "862 \<le> best"
    using best_model_feasible by (rule opt)
  ultimately have best: "best = 862"
    by simp
  have "total_value sel' \<le> total_value sel"
    if "length sel' = length selections \<and> total_weight sel' \<le> capacity" for sel'
    using that knapsack_bound_list [of sel'] by (simp add: v best selections_length capacity_def)
  with sel w v best show ?thesis
    by (auto simp: capacity_def)
qed

theorem knapsack_optimum_witness:
  "is_optimum best_model 862 knapsack \<and>
   total_weight [True, True, True, True, False, False, True, False] = 70 \<and>
   total_value [True, True, True, True, False, False, True, False] = 862"
proof -
  have opt: "is_optimum best_model 862 knapsack"
    unfolding is_optimum_def
    using best_model_feasible knapsack_feasible_bound by blast
  from knapsack_optimum [OF opt] obtain sel where
    s: "map (truth best_model) selections = map Some sel" and v: "total_value sel = 862"
    by blast
  from s best_model_selections
  have "map Some sel = map Some [True, True, True, True, False, False, True, False]"
    by simp
  then have "sel = [True, True, True, True, False, False, True, False]"
    by (rule map_injective) simp
  with v have "total_value [True, True, True, True, False, False, True, False] = 862"
    by simp
  moreover have "total_weight [True, True, True, True, False, False, True, False] = 70"
    by (simp add: total_weight_def selected_sum_def weights_def)
  ultimately show ?thesis
    using opt by simp
qed

section \<open>The Sudoku constraint set\<close>

lemma upt_0_Suc_map: "[0..<Suc n] = 0 # map Suc [0..<n]"
  by (simp add: upt_conv_Cons map_Suc_upt del: upt_Suc)

lemma enumerate_filter_positions:
  assumes QP: "\<And>c. Q c \<Longrightarrow> P c"
  shows "filter (\<lambda>(k, c). Q c) (zip [i..<i + length (filter P xs)] (filter P xs)) =
     map (\<lambda>j. (i + length (filter P (take j xs)), xs ! j)) (filter (\<lambda>j. Q (xs ! j)) [0..<length xs])"
proof (induction xs arbitrary: i)
  case Nil
  then show ?case by simp
next
  case (Cons x xs)
  have tail: "map (\<lambda>j. (i + length (filter P (take j (x # xs))), (x # xs) ! j))
        (filter (\<lambda>j. Q ((x # xs) ! j)) (map Suc [0..<length xs])) =
      map (\<lambda>j. ((i + (if P x then 1 else 0)) + length (filter P (take j xs)), xs ! j))
        (filter (\<lambda>j. Q (xs ! j)) [0..<length xs])"
    by (simp add: filter_map comp_def)
  show ?case
  proof (cases "P x")
    case True
    have "zip [i..<i + length (filter P (x # xs))] (filter P (x # xs)) =
        (i, x) # zip [Suc i..<Suc i + length (filter P xs)] (filter P xs)"
      using True by (simp add: upt_conv_Cons del: upt_Suc)
    then show ?thesis
      using True Cons.IH [of "Suc i"] tail
      by (simp add: upt_0_Suc_map del: upt_Suc)
  next
    case False
    then have "\<not> Q x" using QP by blast
    with False show ?thesis
      using Cons.IH [of i] tail
      by (simp add: upt_0_Suc_map del: upt_Suc)
  qed
qed

lemma clue_loop_eq:
  "i + length cs \<le> length cells \<Longrightarrow>
   clue_loop s i cs =
     Inr (s @ map (\<lambda>(k, c). Eq (cells ! k) (Num (int_of_digit c)))
        (filter (\<lambda>(k, c). c \<in> set ''123456789'') (zip [i..<i + length cs] cs)))"
proof (induction cs arbitrary: s i)
  case Nil
  then show ?case by simp
next
  case (Cons c cs)
  have z: "zip [i..<i + length (c # cs)] (c # cs) = (i, c) # zip [Suc i..<Suc i + length cs] cs"
    by (simp add: upt_conv_Cons del: upt_Suc)
  from Cons.prems have le: "Suc i + length cs \<le> length cells" and lt: "i < length cells"
    by simp_all
  show ?case
    unfolding z using Cons.IH [OF le] lt
    by (simp add: add_def del: upt_Suc)
qed

lemma start_cells_length: "length start_cells = 81"
  by (simp add: start_cells_def puzzle_def)

lemma puzzle_length: "length puzzle = 132"
  by (simp add: puzzle_def)

lemma clue_loop_start_cells:
  "clue_loop s 0 start_cells = Inr (s @ clue_equalities)"
proof -
  have digit: "c \<in> set ''123456789'' \<Longrightarrow> c \<in> set '' 123456789''" for c :: char
    by auto
  have "filter (\<lambda>(k, c). c \<in> set ''123456789'') (zip [0..<0 + length start_cells] start_cells) =
      map (\<lambda>j. (0 + counter_at j, puzzle ! j)) clue_positions"
    unfolding start_cells_def counter_at_def clue_positions_def
    by (rule enumerate_filter_positions [OF digit])
  then have "map (\<lambda>(k, c). Eq (cells ! k) (Num (int_of_digit c)))
        (filter (\<lambda>(k, c). c \<in> set ''123456789'') (zip [0..<0 + length start_cells] start_cells)) =
      clue_equalities"
    by (simp add: clue_equalities_def comp_def)
  moreover have "0 + length start_cells \<le> length cells"
    by (simp add: start_cells_length cells_length)
  ultimately show ?thesis
    using clue_loop_eq [of 0 start_cells s] by simp
qed

lemma sudoku_s_value:
  assumes "blocks = Inr bs"
  shows "sudoku_s =
     Inr (rows @ cols @ bs @ in_range 1 10 cells @ clue_equalities @ [Neq (cells ! 0) (Num 5)])"
  by (simp add: sudoku_s_def sudoku_rules_def assms clue_loop_start_cells add_def Solver_def
      cells_length)

lemma instance_rules_value:
  "instance_rules = Inr (clue_equalities @ [Neq (cells ! 0) (Num 5)])"
  unfolding instance_rules_def sudoku_rules_def sudoku_s_value [OF blocks_value] blocks_value
  by simp

lemma clue_positions_value:
  "clue_positions = [5, 6, 9, 16, 17, 22, 25, 26, 33, 56, 58, 61, 64, 66, 69, 72, 74, 97, 104,
     105, 108, 113, 114, 121, 124, 125]"
  by code_simp

lemma clue_equalities_length: "length clue_equalities = 26"
  by (simp add: clue_equalities_def clue_positions_value)

text \<open>
  C5, as the code has it. The instance rule set is one equality per pre-filled digit
  character of the template, fixing the cell that position stands for to that digit,
  followed by one more constraint of the instance, \<open>cells[0] != 5\<close>. The whole
  constraint set is the 27 generic rules, the domain constraint, and these.
\<close>

theorem sudoku_instance_rules:
  "instance_rules = Inr (clue_equalities @ [Neq (cells ! 0) (Num 5)]) \<and>
   (\<exists>bs. blocks = Inr bs \<and>
      sudoku_s =
        Inr (rows @ cols @ bs @ in_range 1 10 cells @ clue_equalities @ [Neq (cells ! 0) (Num 5)])) \<and>
   clue_equalities =
     map (\<lambda>j. Eq (cells ! counter_at j) (Num (int_of_digit (puzzle ! j))))
       (filter (\<lambda>j. puzzle ! j \<in> set ''123456789'') [0..<length puzzle]) \<and>
   length clue_equalities = length (filter (\<lambda>c. c \<in> set ''123456789'') puzzle) \<and>
   length clue_equalities = 26"
proof -
  have "length (filter (\<lambda>c. c \<in> set ''123456789'') puzzle) = 26"
    by (simp add: puzzle_def)
  moreover have "\<exists>bs. blocks = Inr bs \<and>
      sudoku_s =
        Inr (rows @ cols @ bs @ in_range 1 10 cells @ clue_equalities @ [Neq (cells ! 0) (Num 5)])"
    using sudoku_s_value [OF blocks_value] blocks_value by blast
  ultimately show ?thesis
    using instance_rules_value clue_equalities_length
    by (simp add: clue_equalities_def clue_positions_def)
qed

text \<open>
  C5 as stated fails: the instance rule set is not the list of the clue equalities alone.
\<close>

theorem instance_rules_counterexample:
  "instance_rules \<noteq> Inr clue_equalities"
  by (simp add: instance_rules_value)

section \<open>The display loop\<close>

lemma cells_values:
  assumes "map (model_get m) cells = map (\<lambda>x. Inr (Some x)) g"
  shows "length g = 81" and "i < 81 \<Longrightarrow> num_val m (str_nat i) = Some (g ! i)"
proof -
  from assms have "length (map (model_get m) cells) = length (map (\<lambda>x. Inr (Some x)) g)"
    by simp
  then show len: "length g = 81"
    by (simp add: cells_length)
  assume i: "i < 81"
  then have "map (model_get m) cells ! i = model_get m (cells ! i)"
    by (simp add: cells_length)
  with assms i len have "model_get m (cells ! i) = Inr (Some (g ! i))"
    by simp
  with i show "num_val m (str_nat i) = Some (g ! i)"
    by (simp add: cells_nth)
qed

lemma str_digit: "0 \<le> v \<Longrightarrow> v \<le> 9 \<Longrightarrow> str v = [digit_char (nat v)]"
  by (simp add: str_def str_nat.simps)

lemma display_loop_digits:
  assumes g: "map (model_get m) cells = map (\<lambda>x. Inr (Some x)) g"
    and digits: "\<forall>x\<in>set g. 0 \<le> x \<and> x \<le> 9"
  shows "vs + length (filter (\<lambda>c. c \<in> set '' 123456789'') cs) \<le> 81 \<Longrightarrow>
    \<exists>out. display_loop m vs cs = Inr out \<and> length out = length cs \<and>
      (\<forall>j<length cs.
         if cs ! j \<in> set '' 123456789''
         then [out ! j] = str (g ! (vs + length (filter (\<lambda>c. c \<in> set '' 123456789'') (take j cs))))
         else out ! j = cs ! j)"
proof (induction cs arbitrary: vs)
  case Nil
  then show ?case by simp
next
  case (Cons c cs)
  show ?case
  proof (cases "c \<in> set '' 123456789''")
    case True
    with Cons.prems have vs: "vs < 81"
      and le: "Suc vs + length (filter (\<lambda>c. c \<in> set '' 123456789'') cs) \<le> 81"
      by simp_all
    from Cons.IH [OF le] obtain rest where
      rest: "display_loop m (Suc vs) cs = Inr rest" "length rest = length cs"
      and nth: "\<And>j. j < length cs \<Longrightarrow>
         (if cs ! j \<in> set '' 123456789''
          then [rest ! j] = str (g ! (Suc vs + length (filter (\<lambda>c. c \<in> set '' 123456789'') (take j cs))))
          else rest ! j = cs ! j)"
      by blast
    have "g ! vs \<in> set g"
      using vs cells_values(1) [OF g] by simp
    with digits have d: "str (g ! vs) = [digit_char (nat (g ! vs))]"
      by (simp add: str_digit)
    have get: "model_get m (cells ! vs) = Inr (Some (g ! vs))"
      using vs cells_values(2) [OF g vs] by (simp add: cells_nth)
    have run: "display_loop m vs (c # cs) = Inr (digit_char (nat (g ! vs)) # rest)"
      using True vs get rest(1) d by (simp add: cells_length str_value_def)
    have "\<forall>j<length (c # cs).
         if (c # cs) ! j \<in> set '' 123456789''
         then [(digit_char (nat (g ! vs)) # rest) ! j] =
           str (g ! (vs + length (filter (\<lambda>c. c \<in> set '' 123456789'') (take j (c # cs)))))
         else (digit_char (nat (g ! vs)) # rest) ! j = (c # cs) ! j"
    proof (intro allI impI)
      fix j assume "j < length (c # cs)"
      then show "if (c # cs) ! j \<in> set '' 123456789''
         then [(digit_char (nat (g ! vs)) # rest) ! j] =
           str (g ! (vs + length (filter (\<lambda>c. c \<in> set '' 123456789'') (take j (c # cs)))))
         else (digit_char (nat (g ! vs)) # rest) ! j = (c # cs) ! j"
        using True d nth by (cases j) simp_all
    qed
    with run rest(2) show ?thesis
      by simp
  next
    case False
    with Cons.prems have le: "vs + length (filter (\<lambda>c. c \<in> set '' 123456789'') cs) \<le> 81"
      by simp
    from Cons.IH [OF le] obtain rest where
      rest: "display_loop m vs cs = Inr rest" "length rest = length cs"
      and nth: "\<And>j. j < length cs \<Longrightarrow>
         (if cs ! j \<in> set '' 123456789''
          then [rest ! j] = str (g ! (vs + length (filter (\<lambda>c. c \<in> set '' 123456789'') (take j cs))))
          else rest ! j = cs ! j)"
      by blast
    have run: "display_loop m vs (c # cs) = Inr (c # rest)"
      using False rest(1) by simp
    have "\<forall>j<length (c # cs).
         if (c # cs) ! j \<in> set '' 123456789''
         then [(c # rest) ! j] =
           str (g ! (vs + length (filter (\<lambda>c. c \<in> set '' 123456789'') (take j (c # cs)))))
         else (c # rest) ! j = (c # cs) ! j"
    proof (intro allI impI)
      fix j assume "j < length (c # cs)"
      then show "if (c # cs) ! j \<in> set '' 123456789''
         then [(c # rest) ! j] =
           str (g ! (vs + length (filter (\<lambda>c. c \<in> set '' 123456789'') (take j (c # cs)))))
         else (c # rest) ! j = (c # cs) ! j"
        using False nth by (cases j) simp_all
    qed
    with run rest(2) show ?thesis
      by simp
  qed
qed

lemma placeholders_puzzle: "length (filter (\<lambda>c. c \<in> set '' 123456789'') puzzle) = 81"
  by (simp add: puzzle_def)

lemma counter_at_Suc:
  "j < length puzzle \<Longrightarrow>
   counter_at (Suc j) = counter_at j + (if puzzle ! j \<in> set '' 123456789'' then 1 else 0)"
  by (simp add: counter_at_def take_Suc_conv_app_nth)

lemma counter_at_less:
  assumes "j < length puzzle" and "puzzle ! j \<in> set '' 123456789''"
  shows "counter_at j < 81"
proof -
  have "counter_at (Suc j) \<le> length (filter (\<lambda>c. c \<in> set '' 123456789'') puzzle)"
    unfolding counter_at_def
    by (metis append_take_drop_id filter_append le_add1 length_append)
  moreover have "counter_at (Suc j) = counter_at j + 1"
    using counter_at_Suc [OF assms(1)] assms(2) by (simp only: if_True)
  ultimately show ?thesis
    using placeholders_puzzle by linarith
qed

lemma structural_puzzle:
  "j < length puzzle \<Longrightarrow> puzzle ! j \<notin> set '' 123456789'' \<Longrightarrow>
   puzzle ! j \<in> set ''|-+\<newline>''"
proof -
  assume "j < length puzzle"
  then have "puzzle ! j \<in> set puzzle"
    by (rule nth_mem)
  moreover have "set puzzle \<subseteq> set '' 123456789'' \<union> set ''|-+\<newline>''"
    by (simp add: puzzle_def)
  moreover assume "puzzle ! j \<notin> set '' 123456789''"
  ultimately show ?thesis
    by blast
qed

text \<open>
  C6, as the code has it. For a model that gives every one of the 81 cells a value in
  0..9 (as every model of the Sudoku constraints does), \<open>display\<close> returns a string as
  long as the template; a position that holds a structural character (\<open>|\<close>, \<open>-\<close>, \<open>+\<close>
  or a newline) keeps it, and a position that holds a placeholder (a space or a digit
  1..9) shows the value of the cell \<open>counter_at j\<close>, the number of placeholders before
  it. That counter starts at 0, advances by one at each placeholder and nowhere else, and
  ends at 81.
\<close>

theorem display_template:
  assumes "map (model_get m) cells = map (\<lambda>x. Inr (Some x)) g"
    and "\<forall>x\<in>set g. 0 \<le> x \<and> x \<le> 9"
  shows "\<exists>out. display m = Inr out \<and> length out = length puzzle \<and>
      (\<forall>j<length puzzle.
         if puzzle ! j \<in> set '' 123456789''
         then [out ! j] = str (g ! counter_at j) \<and> counter_at j < length g
         else out ! j = puzzle ! j \<and> puzzle ! j \<in> set ''|-+\<newline>'') \<and>
      counter_at 0 = 0 \<and>
      (\<forall>j<length puzzle.
         counter_at (Suc j) = counter_at j + (if puzzle ! j \<in> set '' 123456789'' then 1 else 0)) \<and>
      counter_at (length puzzle) = 81"
proof -
  have "0 + length (filter (\<lambda>c. c \<in> set '' 123456789'') puzzle) \<le> 81"
    using placeholders_puzzle by linarith
  from display_loop_digits [OF assms this] obtain out where
    out: "display m = Inr out" "length out = length puzzle"
    and nth: "\<And>j. j < length puzzle \<Longrightarrow>
       (if puzzle ! j \<in> set '' 123456789'' then [out ! j] = str (g ! counter_at j)
        else out ! j = puzzle ! j)"
    unfolding display_def counter_at_def by auto
  have "\<forall>j<length puzzle.
         if puzzle ! j \<in> set '' 123456789''
         then [out ! j] = str (g ! counter_at j) \<and> counter_at j < length g
         else out ! j = puzzle ! j \<and> puzzle ! j \<in> set ''|-+\<newline>''"
  proof (intro allI impI)
    fix j assume j: "j < length puzzle"
    show "if puzzle ! j \<in> set '' 123456789''
         then [out ! j] = str (g ! counter_at j) \<and> counter_at j < length g
         else out ! j = puzzle ! j \<and> puzzle ! j \<in> set ''|-+\<newline>''"
    proof (cases "puzzle ! j \<in> set '' 123456789''")
      case True
      with nth [OF j] counter_at_less [OF j] cells_values(1) [OF assms(1)] show ?thesis
        by simp
    next
      case False
      with nth [OF j] structural_puzzle [OF j] show ?thesis
        by simp
    qed
  qed
  moreover have "counter_at 0 = 0"
    by (simp add: counter_at_def)
  moreover have "counter_at (length puzzle) = 81"
    unfolding counter_at_def take_all [OF order_refl] by (rule placeholders_puzzle)
  ultimately show ?thesis
    using out counter_at_Suc by blast
qed

lemma display_loop_wide:
  assumes "\<And>x. num_val m x = Some 10"
  shows "vs + length (filter (\<lambda>c. c \<in> set '' 123456789'') cs) \<le> 81 \<Longrightarrow>
    \<exists>out. display_loop m vs cs = Inr out \<and>
      length out = length cs + length (filter (\<lambda>c. c \<in> set '' 123456789'') cs)"
proof (induction cs arbitrary: vs)
  case Nil
  then show ?case by simp
next
  case (Cons c cs)
  have ten: "str 10 = ''10''"
    by (simp add: str_def str_nat.simps digit_char_values)
  show ?case
  proof (cases "c \<in> set '' 123456789''")
    case True
    with Cons.prems have vs: "vs < 81"
      and le: "Suc vs + length (filter (\<lambda>c. c \<in> set '' 123456789'') cs) \<le> 81"
      by simp_all
    from Cons.IH [OF le] obtain rest where "display_loop m (Suc vs) cs = Inr rest"
      "length rest = length cs + length (filter (\<lambda>c. c \<in> set '' 123456789'') cs)"
      by blast
    with True vs show ?thesis
      by (simp add: cells_length cells_nth assms str_value_def ten)
  next
    case False
    with Cons.prems have le: "vs + length (filter (\<lambda>c. c \<in> set '' 123456789'') cs) \<le> 81"
      by simp
    from Cons.IH [OF le] obtain rest where "display_loop m vs cs = Inr rest"
      "length rest = length cs + length (filter (\<lambda>c. c \<in> set '' 123456789'') cs)"
      by blast
    with False show ?thesis
      by simp
  qed
qed

text \<open>
  C6 as stated fails for a model that gives a cell a value of two digits: the string is
  longer than the template.
\<close>

theorem display_length_counterexample:
  "map_sum id length (display \<lparr>num_val = (\<lambda>x. Some 10), bool_val = Map.empty\<rparr>) = Inr 213 \<and>
   length puzzle = 132"
proof -
  let ?m = "\<lparr>num_val = (\<lambda>x. Some (10::int)), bool_val = Map.empty\<rparr>"
  have "0 + length (filter (\<lambda>c. c \<in> set '' 123456789'') puzzle) \<le> 81"
    using placeholders_puzzle by linarith
  from display_loop_wide [of ?m, OF _ this] obtain out where
    "display ?m = Inr out" "length out = length puzzle + 81"
    unfolding display_def placeholders_puzzle by auto
  then show ?thesis
    by (simp add: puzzle_length)
qed

section \<open>Models of the Sudoku constraint set\<close>

lemma is_model_map:
  "is_model m (map f xs) \<longleftrightarrow> (\<forall>x\<in>set xs. truth m (f x) = Some True)"
  by (simp add: is_model_def list_all_iff)

lemma those_vals_map_Some: "those_vals (map Some vs) = Some vs"
  by (induction vs) simp_all

lemma eval_cell:
  assumes "map (model_get m) cells = map (\<lambda>x. Inr (Some x)) g" and "i < 81"
  shows "eval m (cells ! i) = Some (g ! i)"
  using cells_values(2) [OF assms] assms(2) by (simp add: cells_nth)

lemma truth_Distinct_cells:
  assumes g: "map (model_get m) cells = map (\<lambda>x. Inr (Some x)) g"
    and idxs: "\<forall>j\<in>set xs. f j < 81"
  shows "truth m (Distinct (map (\<lambda>j. cells ! f j) xs)) = Some (distinct (map (\<lambda>j. g ! f j) xs))"
proof -
  have "map (eval m) (map (\<lambda>j. cells ! f j) xs) = map Some (map (\<lambda>j. g ! f j) xs)"
    using idxs by (simp add: eval_cell [OF g])
  then show ?thesis
    by (simp only: truth.simps those_vals_map_Some option.map)
qed

lemma drop_take_nth:
  "b \<le> length xs \<Longrightarrow> drop a (take b xs) = map (\<lambda>i. xs ! i) [a..<b]"
  by (rule nth_equalityI) auto

lemma rows_index:
  "rows = map (\<lambda>i. Distinct (map (\<lambda>j. cells ! (9 * i + j)) [0..<9])) [0..<9]"
proof -
  have r: "range_step 0 81 9 = map (\<lambda>i. 9 * i) [0..<9]"
    by (simp add: range_step_def mult.commute)
  have "slice (9 * i) (9 * i + 9) cells = map (\<lambda>j. cells ! (9 * i + j)) [0..<9]"
    if "i < 9" for i
  proof -
    have "9 * i + 9 \<le> length cells"
      using that by (simp add: cells_length)
    then have "slice (9 * i) (9 * i + 9) cells = map (\<lambda>k. cells ! k) [9 * i..<9 * i + 9]"
      unfolding slice_def by (rule drop_take_nth)
    also have "[9 * i..<9 * i + 9] = map (\<lambda>j. 9 * i + j) [0..<9]"
      using map_add_upt [of "9 * i" 9] by (simp add: add.commute)
    finally show ?thesis
      by (simp add: comp_def)
  qed
  then show ?thesis
    unfolding rows_def r by (simp add: comp_def)
qed

lemma cols_index:
  "cols = map (\<lambda>j. Distinct (map (\<lambda>i. cells ! (9 * i + j)) [0..<9])) [0..<9]"
proof -
  have "slice_from_step c 9 cells = map (\<lambda>i. cells ! (9 * i + c)) [0..<9]"
    if "c < 9" for c
  proof -
    have "(81 - c + 9 - 1) div 9 = 9"
      using that by simp
    then show ?thesis
      unfolding slice_from_step_def range_step_def cells_length
      by (simp only: map_map comp_def add.commute mult.commute)
  qed
  then show ?thesis
    unfolding cols_def by simp
qed

lemma blocks_index:
  "blocks = Inr (map (\<lambda>(R, C). Distinct (map (\<lambda>d. cells ! (case d of (r, c) \<Rightarrow> cell_index R C r c)) sq3x3)) sq3x3)"
  unfolding blocks_value by (simp add: case_prod_unfold)

lemma grid_block_index:
  "grid_block g R C = map (\<lambda>d. g ! (case d of (r, c) \<Rightarrow> cell_index R C r c)) sq3x3"
  by (simp add: grid_block_def sq3x3_def cell_index_def case_prod_unfold add.assoc)

lemma model_rows:
  assumes g: "map (model_get m) cells = map (\<lambda>x. Inr (Some x)) g"
  shows "is_model m rows \<longleftrightarrow> list_all (\<lambda>i. distinct (grid_row g i)) [0..<9]"
proof -
  have "truth m (Distinct (map (\<lambda>j. cells ! (9 * i + j)) [0..<9])) =
      Some (distinct (grid_row g i))" if "i < 9" for i
  proof -
    have "\<forall>j\<in>set [0..<9]. 9 * i + j < 81"
      using that by auto
    from truth_Distinct_cells [OF g this] show ?thesis
      by (simp only: grid_row_def)
  qed
  then show ?thesis
    unfolding rows_index is_model_map list_all_iff by (simp del: truth.simps)
qed

lemma model_cols:
  assumes g: "map (model_get m) cells = map (\<lambda>x. Inr (Some x)) g"
  shows "is_model m cols \<longleftrightarrow> list_all (\<lambda>j. distinct (grid_col g j)) [0..<9]"
proof -
  have "truth m (Distinct (map (\<lambda>i. cells ! (9 * i + j)) [0..<9])) =
      Some (distinct (grid_col g j))" if "j < 9" for j
  proof -
    have "\<forall>i\<in>set [0..<9]. 9 * i + j < 81"
      using that by auto
    from truth_Distinct_cells [OF g this] show ?thesis
      by (simp only: grid_col_def)
  qed
  then show ?thesis
    unfolding cols_index is_model_map list_all_iff by (simp del: truth.simps)
qed

lemma model_blocks:
  assumes g: "map (model_get m) cells = map (\<lambda>x. Inr (Some x)) g"
    and bs: "blocks = Inr bs"
  shows "is_model m bs \<longleftrightarrow>
     list_all (\<lambda>(R, C). distinct (grid_block g R C)) (List.product [0..<3] [0..<3])"
proof -
  let ?F = "\<lambda>(R, C). Distinct (map (\<lambda>d. cells ! (case d of (r, c) \<Rightarrow> cell_index R C r c)) sq3x3)"
  have t: "truth m (?F p) = Some (case p of (R, C) \<Rightarrow> distinct (grid_block g R C))"
    if "p \<in> set sq3x3" for p
  proof (cases p)
    case (Pair R C)
    with that have "R < 3" "C < 3"
      by (simp_all add: set_sq3x3)
    then have "\<forall>d\<in>set sq3x3. (case d of (r, c) \<Rightarrow> cell_index R C r c) < 81"
      by (auto simp: set_sq3x3 cell_index_less)
    from truth_Distinct_cells [OF g this] show ?thesis
      unfolding Pair prod.case by (simp only: grid_block_index)
  qed
  from bs [unfolded blocks_index] have "map ?F sq3x3 = bs"
    by (simp only: sum.inject)
  then have "is_model m bs \<longleftrightarrow> is_model m (map ?F sq3x3)"
    by (simp only:)
  also have "\<dots> \<longleftrightarrow> (\<forall>p\<in>set sq3x3. truth m (?F p) = Some True)"
    by (rule is_model_map)
  also have "\<dots> \<longleftrightarrow> (\<forall>p\<in>set sq3x3. Some (case p of (R, C) \<Rightarrow> distinct (grid_block g R C)) = Some True)"
    by (rule ball_cong [OF refl]) (simp only: t)
  also have "\<dots> \<longleftrightarrow> (\<forall>p\<in>set sq3x3. case p of (R, C) \<Rightarrow> distinct (grid_block g R C))"
    by (simp only: option.inject simp_thms)
  finally show ?thesis
    unfolding list_all_iff sq3x3_def .
qed

lemma model_domain:
  assumes g: "map (model_get m) cells = map (\<lambda>x. Inr (Some x)) g"
  shows "is_model m (in_range 1 10 cells) \<longleftrightarrow> list_all (\<lambda>x. 1 \<le> x \<and> x < 10) g"
proof -
  have "truth m (And (Ge (cells ! i) (Num 1)) (Lt (cells ! i) (Num 10))) =
      Some (1 \<le> g ! i \<and> g ! i < 10)" if "i < 81" for i
    unfolding truth_in_range_elem eval_cell [OF g that] by simp
  then show ?thesis
    unfolding in_range_def is_model_map list_all_iff all_set_conv_all_nth
    by (simp add: cells_length cells_values(1) [OF g])
qed

lemma clue_positions_placeholder:
  assumes "j \<in> set clue_positions"
  shows "j < length puzzle" and "counter_at j < 81"
proof -
  from assms show j: "j < length puzzle"
    by (simp add: clue_positions_def)
  from assms have "puzzle ! j \<in> set ''123456789''"
    by (simp add: clue_positions_def)
  then have "puzzle ! j \<in> set '' 123456789''"
    by auto
  with j show "counter_at j < 81"
    by (rule counter_at_less)
qed

lemma model_clues:
  assumes g: "map (model_get m) cells = map (\<lambda>x. Inr (Some x)) g"
  shows "is_model m clue_equalities \<longleftrightarrow>
     list_all (\<lambda>j. g ! counter_at j = int_of_digit (puzzle ! j)) clue_positions"
proof -
  have "truth m (Eq (cells ! counter_at j) (Num (int_of_digit (puzzle ! j)))) =
      Some (g ! counter_at j = int_of_digit (puzzle ! j))" if "j \<in> set clue_positions" for j
    using eval_cell [OF g clue_positions_placeholder(2) [OF that]] by simp
  then show ?thesis
    unfolding clue_equalities_def is_model_map list_all_iff by simp
qed

lemma sudoku_s_parts:
  assumes "sudoku_s = Inr s"
  shows "\<exists>bs. blocks = Inr bs \<and>
     s = rows @ cols @ bs @ in_range 1 10 cells @ clue_equalities @ [Neq (cells ! 0) (Num 5)]"
proof -
  from assms [unfolded sudoku_s_value [OF blocks_value]]
  have "rows @ cols @
      map (\<lambda>(R, C). Distinct (map (\<lambda>(r, c). cells ! cell_index R C r c) sq3x3)) sq3x3 @
      in_range 1 10 cells @ clue_equalities @ [Neq (cells ! 0) (Num 5)] = s"
    by (simp only: sum.inject)
  with blocks_value show ?thesis
    by blast
qed

lemma model_grid_ok:
  assumes g: "map (model_get m) cells = map (\<lambda>x. Inr (Some x)) g"
    and s: "sudoku_s = Inr s"
  shows "is_model m s \<longleftrightarrow> grid_ok g"
proof -
  from sudoku_s_parts [OF s] obtain bs where bs: "blocks = Inr bs"
    and sv: "s = rows @ cols @ bs @ in_range 1 10 cells @ clue_equalities @ [Neq (cells ! 0) (Num 5)]"
    by blast
  have "truth m (Neq (cells ! 0) (Num 5)) = Some (g ! 0 \<noteq> 5)"
    using eval_cell [OF g, of 0] by simp
  then show ?thesis
    unfolding sv is_model_simps grid_ok_def
      model_rows [OF g] model_cols [OF g] model_blocks [OF g bs] model_domain [OF g] model_clues [OF g]
    by simp
qed

lemma model_defines_cells:
  assumes "sudoku_s = Inr s" and "is_model m s"
  shows "\<exists>g. map (model_get m) cells = map (\<lambda>x. Inr (Some x)) g"
proof -
  from sudoku_s_parts [OF assms(1)] assms(2) have "is_model m (in_range 1 10 cells)"
    by (auto simp: is_model_simps)
  then have "\<forall>e\<in>set cells. truth m (And (Ge e (Num 1)) (Lt e (Num 10))) = Some True"
    unfolding in_range_def is_model_map .
  then have d: "\<forall>e\<in>set cells. \<exists>v. eval m e = Some v"
    unfolding truth_in_range_elem by auto
  have ex: "\<exists>v. num_val m (str_nat i) = Some v" if "i < 81" for i
  proof -
    have "cells ! i \<in> set cells"
      using that by (simp add: cells_length)
    with d obtain v where "eval m (cells ! i) = Some v"
      by blast
    then show ?thesis
      by (simp add: cells_nth [OF that])
  qed
  define g where "g = map (\<lambda>i. the (num_val m (str_nat i))) [0..<81]"
  have "map (model_get m) cells = map (\<lambda>x. Inr (Some x)) g"
  proof (rule nth_equalityI)
    show "length (map (model_get m) cells) = length (map (\<lambda>x. Inr (Some x)) g)"
      by (simp add: g_def cells_length)
    fix i assume "i < length (map (model_get m) cells)"
    then have i: "i < 81"
      by (simp add: cells_length)
    from ex [OF i] obtain v where "num_val m (str_nat i) = Some v"
      by blast
    with i show "map (model_get m) cells ! i = map (\<lambda>x. Inr (Some x)) g ! i"
      by (simp add: g_def cells_length cells_nth)
  qed
  then show ?thesis
    by blast
qed

lemma permutation_1_9:
  fixes vs :: "int list"
  assumes "distinct vs" and "length vs = 9" and "\<forall>x\<in>set vs. 1 \<le> x \<and> x < 10"
  shows "mset vs = mset [1..9]"
proof -
  have sub: "set vs \<subseteq> {1..9}"
    using assms(3) by auto
  have "card (set vs) = 9"
    using assms(1,2) by (simp add: distinct_card)
  then have "card (set vs) = card {1..9::int}"
    by simp
  with sub have "set vs = {1..9}"
    by (intro card_subset_eq) simp_all
  then have "set vs = set [1..9]"
    by simp
  moreover have "distinct [1..9::int]"
    by simp
  ultimately show ?thesis
    using assms(1) by (simp only: set_eq_iff_mset_eq_distinct)
qed

section \<open>What a model of the Sudoku constraints completes\<close>

lemma grid_model_cells:
  assumes "length g = 81"
  shows "map (model_get (grid_model g)) cells = map (\<lambda>x. Inr (Some x)) g"
proof (rule nth_equalityI)
  show "length (map (model_get (grid_model g)) cells) = length (map (\<lambda>x. Inr (Some x)) g)"
    by (simp add: assms cells_length)
  fix i assume "i < length (map (model_get (grid_model g)) cells)"
  then have i: "i < 81"
    by (simp add: cells_length)
  let ?names = "map (\<lambda>i. str (int i)) [0..<length g]"
  have "distinct ?names"
    by (simp add: distinct_map inj_on_def str_int_nat str_nat_inj)
  moreover have "length ?names = length g"
    by simp
  ultimately have "map_of (zip ?names g) (?names ! i) = Some (g ! i)"
    using i assms by (intro map_of_zip_nth) simp_all
  moreover have "?names ! i = str_nat i"
    using i assms by (simp add: str_int_nat)
  ultimately have "num_val (grid_model g) (str_nat i) = Some (g ! i)"
    by (simp add: grid_model_def)
  with i show "map (model_get (grid_model g)) cells ! i = map (\<lambda>x. Inr (Some x)) g ! i"
    by (simp add: cells_length cells_nth assms)
qed

lemma solved_grid_length: "length solved_grid = 81"
  by (simp add: solved_grid_def)

lemma solved_grid_ok: "grid_ok solved_grid"
  by code_simp

lemma grid_row_set: "length g = 81 \<Longrightarrow> i < 9 \<Longrightarrow> set (grid_row g i) \<subseteq> set g"
  by (auto simp: grid_row_def)

lemma grid_col_set: "length g = 81 \<Longrightarrow> j < 9 \<Longrightarrow> set (grid_col g j) \<subseteq> set g"
  by (auto simp: grid_col_def)

lemma grid_block_set:
  assumes "length g = 81" "R < 3" "C < 3"
  shows "set (grid_block g R C) \<subseteq> set g"
proof -
  have "cell_index R C r c < length g" if "(r, c) \<in> set sq3x3" for r c
    using that assms by (simp add: set_sq3x3 cell_index_less)
  then show ?thesis
    unfolding grid_block_index by (auto simp del: upt_Suc)
qed

text \<open>
  C3. A model of the constraint set the Sudoku cell builds gives the 81 cells values
  whose grid has every row, every column and every 3x3 block a permutation of 1..9, and
  agrees with the template: where the template holds a digit, the cell that position
  stands for holds that digit.
\<close>

theorem sudoku_model:
  assumes "sudoku_s = Inr s" and "is_model m s"
  shows "\<exists>g. map (model_get m) cells = map (\<lambda>x. Inr (Some x)) g \<and> length g = 81 \<and>
      (\<forall>i<9. mset (grid_row g i) = mset [1..9]) \<and>
      (\<forall>j<9. mset (grid_col g j) = mset [1..9]) \<and>
      (\<forall>R<3. \<forall>C<3. mset (grid_block g R C) = mset [1..9]) \<and>
      (\<forall>j<length puzzle. puzzle ! j \<in> set ''123456789'' \<longrightarrow>
         g ! counter_at j = int_of_digit (puzzle ! j))"
proof -
  from model_defines_cells [OF assms] obtain g where
    g: "map (model_get m) cells = map (\<lambda>x. Inr (Some x)) g"
    by blast
  have len: "length g = 81"
    by (rule cells_values(1) [OF g])
  from assms(2) model_grid_ok [OF g assms(1)] have ok: "grid_ok g"
    by simp
  then have rng: "\<forall>x\<in>set g. 1 \<le> x \<and> x < 10"
    by (simp add: grid_ok_def list_all_iff)
  have rows: "mset (grid_row g i) = mset [1..9]" if "i < 9" for i
  proof (rule permutation_1_9)
    show "distinct (grid_row g i)"
      using ok that by (simp add: grid_ok_def list_all_iff)
    show "length (grid_row g i) = 9"
      by (simp add: grid_row_def)
    show "\<forall>x\<in>set (grid_row g i). 1 \<le> x \<and> x < 10"
      using rng grid_row_set [OF len that] by blast
  qed
  have cols: "mset (grid_col g j) = mset [1..9]" if "j < 9" for j
  proof (rule permutation_1_9)
    show "distinct (grid_col g j)"
      using ok that by (simp add: grid_ok_def list_all_iff)
    show "length (grid_col g j) = 9"
      by (simp add: grid_col_def)
    show "\<forall>x\<in>set (grid_col g j). 1 \<le> x \<and> x < 10"
      using rng grid_col_set [OF len that] by blast
  qed
  have blks: "mset (grid_block g R C) = mset [1..9]" if "R < 3" "C < 3" for R C
  proof (rule permutation_1_9)
    from ok have "\<forall>p\<in>set sq3x3. case p of (R, C) \<Rightarrow> distinct (grid_block g R C)"
      unfolding grid_ok_def list_all_iff sq3x3_def by blast
    moreover have "(R, C) \<in> set sq3x3"
      using that by (simp add: set_sq3x3)
    ultimately show "distinct (grid_block g R C)"
      by blast
    show "length (grid_block g R C) = 9"
      by (simp add: grid_block_def)
    show "\<forall>x\<in>set (grid_block g R C). 1 \<le> x \<and> x < 10"
      using rng grid_block_set [OF len that] by blast
  qed
  have clues: "g ! counter_at j = int_of_digit (puzzle ! j)"
    if "j < length puzzle" "puzzle ! j \<in> set ''123456789''" for j
  proof -
    from that have "j \<in> set clue_positions"
      by (simp add: clue_positions_def)
    with ok show ?thesis
      by (simp add: grid_ok_def list_all_iff)
  qed
  from g len rows cols blks clues show ?thesis
    by blast
qed

theorem sudoku_model_witness:
  "(\<exists>s. sudoku_s = Inr s \<and> is_model (grid_model solved_grid) s) \<and>
   mset (grid_row solved_grid 0) = mset [1..9] \<and>
   mset (grid_col solved_grid 8) = mset [1..9] \<and>
   mset (grid_block solved_grid 1 1) = mset [1..9] \<and>
   solved_grid ! counter_at 5 = int_of_digit (puzzle ! 5)"
proof -
  obtain s where s: "sudoku_s = Inr s"
    using sudoku_s_value [OF blocks_value] by blast
  note c = grid_model_cells [OF solved_grid_length]
  have model: "is_model (grid_model solved_grid) s"
    using model_grid_ok [OF c s] solved_grid_ok by simp
  from sudoku_model [OF s model] obtain g where
    g: "map (model_get (grid_model solved_grid)) cells = map (\<lambda>x. Inr (Some x)) g"
    and rows: "\<forall>i<9. mset (grid_row g i) = mset [1..9]"
    and cols: "\<forall>j<9. mset (grid_col g j) = mset [1..9]"
    and blks: "\<forall>R<3. \<forall>C<3. mset (grid_block g R C) = mset [1..9]"
    and clues: "\<forall>j<length puzzle. puzzle ! j \<in> set ''123456789'' \<longrightarrow>
         g ! counter_at j = int_of_digit (puzzle ! j)"
    by blast
  from g c have "map (\<lambda>x. Inr (Some x) :: error + int option) g =
      map (\<lambda>x. Inr (Some x)) solved_grid"
    by simp
  then have eq: "g = solved_grid"
    by (rule map_injective) (simp add: inj_on_def)
  have "puzzle ! 5 \<in> set ''123456789''" "5 < length puzzle"
    by (simp_all add: puzzle_def)
  with clues have "g ! counter_at 5 = int_of_digit (puzzle ! 5)"
    by blast
  with rows cols blks s model show ?thesis
    unfolding eq by auto
qed

text \<open>The solved grid is shown the way the notebook prints it.\<close>

theorem display_template_witness:
  "map_sum id length (display (grid_model solved_grid)) = Inr 132 \<and>
   map_sum id (\<lambda>out. [out ! 0, out ! 3, out ! 11]) (display (grid_model solved_grid)) =
     Inr ''7|\<newline>''"
proof -
  note c = grid_model_cells [OF solved_grid_length]
  have d: "\<forall>x\<in>set solved_grid. 0 \<le> x \<and> x \<le> 9"
    by (simp add: solved_grid_def)
  from display_template [OF c d] obtain out where
    out: "display (grid_model solved_grid) = Inr out" "length out = length puzzle"
    and nth: "\<And>j. j < length puzzle \<Longrightarrow>
       (if puzzle ! j \<in> set '' 123456789''
        then [out ! j] = str (solved_grid ! counter_at j) \<and> counter_at j < length solved_grid
        else out ! j = puzzle ! j \<and> puzzle ! j \<in> set ''|-+\<newline>'')"
    by blast
  have "[out ! 0] = str (solved_grid ! counter_at 0)"
    using nth [of 0] by (simp add: puzzle_def)
  then have o0: "out ! 0 = CHR ''7''"
    by (simp add: counter_at_def solved_grid_def str_def str_nat.simps digit_char_values)
  have o3: "out ! 3 = CHR ''|''"
    using nth [of 3] by (simp add: puzzle_def)
  have o11: "out ! 11 = CHR ''\<newline>''"
    using nth [of 11] by (simp add: puzzle_def)
  from out o0 o3 o11 show ?thesis
    by (simp add: puzzle_length)
qed

end
